theory Spec2Isabelle
  imports Main "HOL-Library.Sublist"
begin

section \<open>The platform the recorder runs on\<close>

text \<open>
  \<^verbatim>\<open>AgoraRecorder\<close> is a thin class around collaborators it imports: Node's \<^verbatim>\<open>path\<close>,
  \<^verbatim>\<open>fs\<close> and \<^verbatim>\<open>events\<close> modules, \<^verbatim>\<open>JSON.stringify\<close>, \<^verbatim>\<open>Promise\<close> and timers, the
  \<^verbatim>\<open>fecha\<close> date formatter, the token builder and the native recording engine. The pure
  ones (paths, date formatting, JSON text) are written out below as the POSIX platform
  computes them; the effectful ones appear as entries of a call log.

  Strings are lists of bytes (the UTF-8 text that ends on disk).
\<close>

subsection \<open>Decimal numbers and \<^verbatim>\<open>fecha\<close>'s \<^verbatim>\<open>format\<close>\<close>

definition digit :: "nat \<Rightarrow> char" where
  "digit n = ''0123456789abcdef'' ! n"

text \<open>\<^verbatim>\<open>String(n)\<close> for a non-negative integer.\<close>

fun decimal :: "nat \<Rightarrow> string" where
  "decimal n = (if n < 10 then [digit n] else decimal (n div 10) @ [digit (n mod 10)])"

declare decimal.simps [simp del]

text \<open>
  \<^verbatim>\<open>function pad(val, len = 2) { val = String(val); while (val.length < len) val = "0" + val; return val }\<close>
\<close>

definition pad :: "nat \<Rightarrow> nat \<Rightarrow> string" where
  "pad val len = replicate (len - length (decimal val)) CHR ''0'' @ decimal val"

text \<open>
  A \<^verbatim>\<open>Date\<close>, read through the local-time getters \<^verbatim>\<open>fecha\<close> uses. \<^verbatim>\<open>getMonth\<close> counts
  from 0, as in JavaScript.
\<close>

record Date =
  getFullYear :: nat
  getMonth :: nat
  getDate :: nat
  getHours :: nat
  getMinutes :: nat
  getSeconds :: nat

text \<open>
  \<^verbatim>\<open>format(date, mask)\<close> of \<^verbatim>\<open>fecha\<close>, for masks like the recorder's two,
  \<^verbatim>\<open>YYYY-MM-DD\<close> and \<^verbatim>\<open>HH:mm:ss\<close>: the tokens \<^verbatim>\<open>YYYY\<close>, \<^verbatim>\<open>MM\<close>, \<^verbatim>\<open>DD\<close>, \<^verbatim>\<open>HH\<close>, \<^verbatim>\<open>mm\<close>
  and \<^verbatim>\<open>ss\<close> are replaced by the padded number and the separators between them are
  copied. (The other tokens of \<^verbatim>\<open>fecha\<close> do not occur in these masks and are not modelled.)
\<close>

fun formatDate :: "Date \<Rightarrow> string \<Rightarrow> string" where
  "formatDate d [] = []"
| "formatDate d (c # cs) =
     (if take 4 (c # cs) = ''YYYY'' then pad (getFullYear d) 4 @ formatDate d (drop 3 cs)
      else if take 2 (c # cs) = ''MM'' then pad (getMonth d + 1) 2 @ formatDate d (drop 1 cs)
      else if take 2 (c # cs) = ''DD'' then pad (getDate d) 2 @ formatDate d (drop 1 cs)
      else if take 2 (c # cs) = ''HH'' then pad (getHours d) 2 @ formatDate d (drop 1 cs)
      else if take 2 (c # cs) = ''mm'' then pad (getMinutes d) 2 @ formatDate d (drop 1 cs)
      else if take 2 (c # cs) = ''ss'' then pad (getSeconds d) 2 @ formatDate d (drop 1 cs)
      else c # formatDate d cs)"

subsection \<open>Node's \<^verbatim>\<open>path\<close> module (POSIX)\<close>

text \<open>The segments of a path between its \<^verbatim>\<open>/\<close> separators.\<close>

fun segments :: "string \<Rightarrow> string list" where
  "segments [] = [[]]"
| "segments (c # cs) =
     (if c = CHR ''/'' then [] # segments cs
      else (case segments cs of [] \<Rightarrow> [[c]] | s # ss \<Rightarrow> (c # s) # ss))"

text \<open>
  One segment of \<^verbatim>\<open>normalizeString\<close>: an empty segment and \<^verbatim>\<open>.\<close> are skipped,
  \<^verbatim>\<open>..\<close> removes the segment before it (or is kept when the path may climb above its
  start), anything else is appended.
\<close>

definition normalizeStep :: "bool \<Rightarrow> string list \<Rightarrow> string \<Rightarrow> string list" where
  "normalizeStep allowAboveRoot res seg =
     (if seg = [] \<or> seg = ''.'' then res
      else if seg = ''..'' then
        (if res \<noteq> [] \<and> last res \<noteq> ''..'' then butlast res
         else if allowAboveRoot then res @ [''..''] else res)
      else res @ [seg])"

fun joinSegments :: "string list \<Rightarrow> string" where
  "joinSegments [] = []"
| "joinSegments [s] = s"
| "joinSegments (s # t # ss) = s @ CHR ''/'' # joinSegments (t # ss)"

definition normalizeString :: "string \<Rightarrow> bool \<Rightarrow> string" where
  "normalizeString p allowAboveRoot =
     joinSegments (foldl (normalizeStep allowAboveRoot) [] (segments p))"

definition isAbsolute :: "string \<Rightarrow> bool" where
  "isAbsolute p = (p \<noteq> [] \<and> hd p = CHR ''/'')"

text \<open>
  \<^verbatim>\<open>path.resolve(a, b)\<close>: the arguments are taken from the right until an absolute one
  is met, empty ones are skipped, and the working directory \<^verbatim>\<open>process.cwd()\<close> comes last.
\<close>

definition path_resolve :: "string \<Rightarrow> string \<Rightarrow> string \<Rightarrow> string" where
  "path_resolve cwd a b =
     (let r0 = [];
          (r1, abs1) = (if b = [] then (r0, False) else (b @ CHR ''/'' # r0, isAbsolute b));
          (r2, abs2) = (if abs1 \<or> a = [] then (r1, abs1) else (a @ CHR ''/'' # r1, isAbsolute a));
          (r3, abs3) = (if abs2 \<or> cwd = [] then (r2, abs2) else (cwd @ CHR ''/'' # r2, isAbsolute cwd));
          resolvedPath = normalizeString r3 (\<not> abs3)
      in if abs3 then CHR ''/'' # resolvedPath
         else if resolvedPath \<noteq> [] then resolvedPath else ''.'')"

text \<open>\<^verbatim>\<open>path.normalize(p)\<close>.\<close>

definition path_normalize :: "string \<Rightarrow> string" where
  "path_normalize p =
     (if p = [] then ''.''
      else let trailingSeparator = (last p = CHR ''/'');
               q = normalizeString p (\<not> isAbsolute p)
           in if q = [] then (if isAbsolute p then ''/'' else if trailingSeparator then ''./'' else ''.'')
              else (if isAbsolute p then ''/'' else []) @ q @ (if trailingSeparator then ''/'' else []))"

text \<open>\<^verbatim>\<open>path.join(a, b)\<close>: the non-empty arguments joined by \<^verbatim>\<open>/\<close>, then normalised.\<close>

definition path_join :: "string \<Rightarrow> string \<Rightarrow> string" where
  "path_join a b =
     (let joined = (if a = [] then b else if b = [] then a else a @ CHR ''/'' # b)
      in if joined = [] then ''.'' else path_normalize joined)"

subsection \<open>\<^verbatim>\<open>JSON.stringify\<close>\<close>

datatype json = JString string | JObject "(string \<times> json) list"

text \<open>
  \<^verbatim>\<open>QuoteJSONString\<close>: the quotation mark, the backslash and the control characters
  below U+0020 are escaped, every other byte is copied.
\<close>

definition quoteChar :: "char \<Rightarrow> string" where
  "quoteChar c =
     (if c = CHR 0x22 then [CHR 0x5C, CHR 0x22]
      else if c = CHR 0x5C then [CHR 0x5C, CHR 0x5C]
      else if c = CHR 0x08 then [CHR 0x5C, CHR ''b'']
      else if c = CHR 0x09 then [CHR 0x5C, CHR ''t'']
      else if c = CHR 0x0A then [CHR 0x5C, CHR ''n'']
      else if c = CHR 0x0C then [CHR 0x5C, CHR ''f'']
      else if c = CHR 0x0D then [CHR 0x5C, CHR ''r'']
      else if (of_char c :: nat) < 32
        then [CHR 0x5C, CHR ''u'', CHR ''0'', CHR ''0'',
              digit ((of_char c :: nat) div 16), digit ((of_char c :: nat) mod 16)]
      else [c])"

definition quoteJSONString :: "string \<Rightarrow> string" where
  "quoteJSONString s = CHR 0x22 # concat (map quoteChar s) @ [CHR 0x22]"

fun JSON_stringify :: "json \<Rightarrow> string"
  and stringify_members :: "(string \<times> json) list \<Rightarrow> string" where
  "JSON_stringify (JString s) = quoteJSONString s"
| "JSON_stringify (JObject ms) = CHR ''{'' # stringify_members ms @ ''}''"
| "stringify_members [] = []"
| "stringify_members [(k, v)] = quoteJSONString k @ CHR '':'' # JSON_stringify v"
| "stringify_members ((k, v) # m # ms) =
     quoteJSONString k @ CHR '':'' # JSON_stringify v @ CHR '','' # stringify_members (m # ms)"


section \<open>The recorder\<close>

text \<open>
  Two revisions of the class are in the repository: \<^verbatim>\<open>src/AgoraRecorder.ts\<close>, and the file
  \<^verbatim>\<open>part_000\<close>, which adds the \<^verbatim>\<open>logLevel\<close> option and a five second timer to \<^verbatim>\<open>start()\<close>
  (and calls the \<^verbatim>\<open>account\<close> option \<^verbatim>\<open>userAccount\<close>). The definitions take the revision as a
  parameter where the two differ: in the constructor and in the continuation of
  \<^verbatim>\<open>start()\<close>.
\<close>

datatype revision = AgoraRecorder_ts | part_000

subsection \<open>Data\<close>

text \<open>
  The members of \<^verbatim>\<open>AgoraRecorderEvent\<close> that \<^verbatim>\<open>initEventHandler\<close> subscribes to. The enumeration
  is declared by the SDK; its members are taken to be pairwise distinct event names.
\<close>

datatype AgoraRecorderEvent =
    REC_EVENT_JOIN_CHANNEL
  | REC_EVENT_LEAVE_CHANNEL
  | REC_EVENT_ERROR
  | REC_EVENT_USER_JOIN
  | REC_EVENT_USER_LEAVE
  | REC_EVENT_ACTIVE_SPEAKER
  | REC_EVENT_CONN_LOST
  | REC_EVENT_CONN_INTER
  | REC_EVENT_STREAM_CHANGED
  | REC_EVENT_FIRST_VIDEO_FRAME
  | REC_EVENT_FIRST_AUDIO_FRAME
  | RTC_EVENT_AUDIO_VOLUME_INDICATION
  | REC_EVENT_REMOTE_VIDEO_STREAM_STATE_CHANGED
  | REC_EVENT_REMOTE_AUDIO_STREAM_STATE_CHANGED
  | REC_EVENT_REJOIN_SUCCESS
  | REC_EVENT_CONN_STATE_CHANGED
  | REC_EVENT_REMOTE_VIDEO_STATS
  | REC_EVENT_REMOTE_AUDIO_STATS
  | REC_EVENT_RECORDING_STATS
  | REC_EVENT_LOCAL_USER_REGISTER
  | REC_EVENT_USER_INFO_UPDATED

text \<open>
  What the code can throw: a \<^verbatim>\<open>TypeError\<close> (calling an undefined template, a path argument
  that is not a string) and the errors of the \<^verbatim>\<open>fs\<close> module, known by their code.
\<close>

datatype error = TypeError | FsError string

text \<open>
  JavaScript values as they travel through callbacks and promises. \<open>VObj\<close> is an object
  the recorder never looks into (statistics, user info), known by an identifier.
\<close>

datatype val = VUndefined | VBool bool | VNum int | VStr string | VObj nat | VError error

datatype AgoraVideoMixingLayout = Layout nat

datatype RtcRole = PUBLISHER | SUBSCRIBER

text \<open>
  The token is the vendor's function of its six arguments; it is kept symbolic.
\<close>

datatype token = BuildTokenWithAccount string string string "string option" RtcRole nat

record AgoraRecorderConfig =
  appId :: string
  certificate :: string
  channel :: string
  account :: "string option"
  outputDir :: "string option"
  recordDirTmpl :: "(string \<Rightarrow> Date \<Rightarrow> string) option"
  logLevel :: "nat option"

text \<open>
  Every call the recorder makes to a collaborator, in program order: the \<^verbatim>\<open>fs\<close> module, the
  native engine (\<^verbatim>\<open>this.sdk\<close>), timers, the console, and its own \<^verbatim>\<open>EventEmitter\<close> base class.
  \<open>Listener_called\<close> is the invocation of a listener the application attached.
\<close>

datatype call =
    Fs_mkdirSync string
  | Sdk_new
  | Sdk_setLogLevel nat
  | Sdk_on AgoraRecorderEvent
  | Fs_writeFile string string
  | Sdk_joinChannel string token string "string option" string string
  | Timer_setTimeout nat nat
  | Timer_clearTimeout nat
  | Console_error string
  | This_once AgoraRecorderEvent
  | This_on AgoraRecorderEvent
  | This_emit AgoraRecorderEvent "val list"
  | Listener_called nat AgoraRecorderEvent "val list"
  | Sdk_leaveChannel
  | Sdk_release
  | Sdk_setMixLayout AgoraVideoMixingLayout

text \<open>
  The closures \<^verbatim>\<open>start()\<close> registers, by what they capture: the promise's
  \<^verbatim>\<open>resolve\<close>/\<^verbatim>\<open>reject\<close> and, in the later revision, the timer. \<open>External\<close> is a
  listener of the application.
\<close>

datatype listener =
    ResolveTrue nat "nat option"
  | RejectErr nat "nat option"
  | External nat

datatype promise = Pending | Fulfilled val | Rejected val

datatype timer = Armed | Cleared | Expired

text \<open>
  The state: the object store holding configuration objects, the fields of \<^verbatim>\<open>this\<close>
  (\<open>config\<close> is a reference into the store; \<open>sdk_handlers\<close> are the handlers attached to
  \<^verbatim>\<open>this.sdk\<close>, each with the number of parameters it relays; \<open>listeners\<close> is the listener
  table of the \<^verbatim>\<open>EventEmitter\<close> base class with the \<^verbatim>\<open>once\<close> flag), the promises returned by
  \<^verbatim>\<open>start()\<close>, the timers, the \<^verbatim>\<open>start()\<close> calls suspended at \<^verbatim>\<open>await writeFile\<close> (promise and
  the captured \<^verbatim>\<open>cfgPath\<close>), and the call log.

  \<^verbatim>\<open>start()\<close> is an async function ending in \<^verbatim>\<open>return await new Promise(...)\<close>: the promise
  it returns adopts the outcome of the inner one, and the two are one entry of \<open>promises\<close>.
\<close>

record state =
  heap :: "nat \<Rightarrow> AgoraRecorderConfig"
  config :: nat
  date :: Date
  sdk_handlers :: "(AgoraRecorderEvent \<times> nat) list"
  listeners :: "(AgoraRecorderEvent \<times> bool \<times> listener) list"
  promises :: "promise list"
  timers :: "timer list"
  awaiting :: "(nat \<times> string) list"
  calls :: "call list"

text \<open>
  What the recorder reads from its environment: the working directory, the clock, and
  whether \<^verbatim>\<open>fs.mkdirSync\<close> throws for a path.
\<close>

record env =
  cwd :: string
  now :: Date
  mkdirSync_throws :: "string \<Rightarrow> error option"

subsection \<open>Promises, timers and the event emitter\<close>

definition logCall :: "call \<Rightarrow> state \<Rightarrow> state" where
  "logCall c s = s\<lparr>calls := calls s @ [c]\<rparr>"

text \<open>Settling a promise that is no longer pending does nothing.\<close>

definition settle :: "nat \<Rightarrow> promise \<Rightarrow> state \<Rightarrow> state" where
  "settle pid outcome s =
     (if pid < length (promises s) \<and> promises s ! pid = Pending
      then s\<lparr>promises := (promises s)[pid := outcome]\<rparr> else s)"

definition resolve :: "nat \<Rightarrow> val \<Rightarrow> state \<Rightarrow> state" where
  "resolve pid v = settle pid (Fulfilled v)"

definition reject :: "nat \<Rightarrow> val \<Rightarrow> state \<Rightarrow> state" where
  "reject pid v = settle pid (Rejected v)"

definition setTimeout :: "nat \<Rightarrow> state \<Rightarrow> state \<times> nat" where
  "setTimeout ms s =
     (let tid = length (timers s)
      in (logCall (Timer_setTimeout tid ms) (s\<lparr>timers := timers s @ [Armed]\<rparr>), tid))"

definition clearTimeout :: "nat \<Rightarrow> state \<Rightarrow> state" where
  "clearTimeout tid s =
     logCall (Timer_clearTimeout tid)
       (if tid < length (timers s) \<and> timers s ! tid = Armed
        then s\<lparr>timers := (timers s)[tid := Cleared]\<rparr> else s)"

text \<open>The i-th argument of a call; a missing argument is \<^verbatim>\<open>undefined\<close>.\<close>

definition arg :: "nat \<Rightarrow> val list \<Rightarrow> val" where
  "arg i args = (if i < length args then args ! i else VUndefined)"

definition params :: "nat \<Rightarrow> val list \<Rightarrow> val list" where
  "params n args = map (\<lambda>i. arg i args) [0..<n]"

text \<open>
  The bodies of the listeners:
  \<^verbatim>\<open>() => { clearTimeout(timeout); resolve(true) }\<close> and
  \<^verbatim>\<open>(err) => { clearTimeout(timeout); reject(err) }\<close>, without the \<^verbatim>\<open>clearTimeout\<close> in
  \<^verbatim>\<open>src/AgoraRecorder.ts\<close>.
\<close>

fun invoke :: "AgoraRecorderEvent \<Rightarrow> val list \<Rightarrow> listener \<Rightarrow> state \<Rightarrow> state" where
  "invoke k args (ResolveTrue pid None) s = resolve pid (VBool True) s"
| "invoke k args (ResolveTrue pid (Some tid)) s = resolve pid (VBool True) (clearTimeout tid s)"
| "invoke k args (RejectErr pid None) s = reject pid (arg 0 args) s"
| "invoke k args (RejectErr pid (Some tid)) s = reject pid (arg 0 args) (clearTimeout tid s)"
| "invoke k args (External n) s = logCall (Listener_called n k args) s"

definition once :: "AgoraRecorderEvent \<Rightarrow> listener \<Rightarrow> state \<Rightarrow> state" where
  "once k l s = logCall (This_once k) (s\<lparr>listeners := listeners s @ [(k, True, l)]\<rparr>)"

definition on :: "AgoraRecorderEvent \<Rightarrow> listener \<Rightarrow> state \<Rightarrow> state" where
  "on k l s = logCall (This_on k) (s\<lparr>listeners := listeners s @ [(k, False, l)]\<rparr>)"

text \<open>
  \<^verbatim>\<open>emit\<close> calls the listeners registered for the event, in registration order, on a copy
  of the table; a \<^verbatim>\<open>once\<close> listener is removed from the table when it is called. (Node
  throws when an event named \<^verbatim>\<open>error\<close> is emitted and has no listener; the names behind the
  SDK's enumeration are not in the repository, and an event without listeners is taken
  to do nothing.)
\<close>

definition emit :: "AgoraRecorderEvent \<Rightarrow> val list \<Rightarrow> state \<Rightarrow> state" where
  "emit k args s =
     (let snapshot = filter (\<lambda>(k', _, _). k' = k) (listeners s);
          s1 = logCall (This_emit k args)
                 (s\<lparr>listeners := filter (\<lambda>(k', once, _). \<not> (k' = k \<and> once)) (listeners s)\<rparr>)
      in foldl (\<lambda>s (_, _, l). invoke k args l s) s1 snapshot)"


subsection \<open>The constructor\<close>

text \<open>\<^verbatim>\<open>!x\<close> for an optional string: true for \<^verbatim>\<open>undefined\<close> and for the empty string.\<close>

definition falsy :: "string option \<Rightarrow> bool" where
  "falsy x = (x = None \<or> x = Some [])"

text \<open>
  The default template
  \<^verbatim>\<open>({ channel, date }) => `${formatDate(date, 'YYYY-MM-DD')}/${formatDate(date, 'HH:mm:ss')} ${channel}`\<close>.
\<close>

definition defaultRecordDirTmpl :: "string \<Rightarrow> Date \<Rightarrow> string" where
  "defaultRecordDirTmpl ch d =
     formatDate d ''YYYY-MM-DD'' @ ''/'' @ formatDate d ''HH:mm:ss'' @ '' '' @ ch"

text \<open>
  The three assignments at the head of the constructor, made to the object the caller
  passed.
\<close>

definition assignDefaults :: "AgoraRecorderConfig \<Rightarrow> AgoraRecorderConfig" where
  "assignDefaults c =
     (let c1 = (if falsy (account c) then c\<lparr>account := Some ''agora-recorder''\<rparr> else c);
          c2 = (if falsy (outputDir c1) then c1\<lparr>outputDir := Some ''output''\<rparr> else c1);
          c3 = (if recordDirTmpl c2 = None
                then c2\<lparr>recordDirTmpl := Some defaultRecordDirTmpl\<rparr> else c2)
      in c3)"

text \<open>
  The getter \<^verbatim>\<open>recordPath\<close>. It reads the configuration object through \<^verbatim>\<open>this.config\<close> and
  the stored \<^verbatim>\<open>this.date\<close>, and changes nothing. An undefined template or output directory
  is a \<^verbatim>\<open>TypeError\<close>.
\<close>

definition recordPath :: "env \<Rightarrow> state \<Rightarrow> error + string" where
  "recordPath e s =
     (let c = heap s (config s)
      in case recordDirTmpl c of
           None \<Rightarrow> Inl TypeError
         | Some tmpl \<Rightarrow>
             (case outputDir c of
                None \<Rightarrow> Inl TypeError
              | Some dir \<Rightarrow> Inr (path_resolve (cwd e) dir (tmpl (channel c) (date s)))))"

text \<open>
  The handlers of \<^verbatim>\<open>initEventHandler\<close>, in source order: each relays its event to the
  recorder's own subscribers with the number of parameters its arrow function declares.
\<close>

definition relays :: "(AgoraRecorderEvent \<times> nat) list" where
  "relays =
     [(REC_EVENT_JOIN_CHANNEL, 2), (REC_EVENT_LEAVE_CHANNEL, 0), (REC_EVENT_ERROR, 2),
      (REC_EVENT_USER_JOIN, 1), (REC_EVENT_USER_LEAVE, 1), (REC_EVENT_ACTIVE_SPEAKER, 1),
      (REC_EVENT_CONN_LOST, 0), (REC_EVENT_CONN_INTER, 0), (REC_EVENT_STREAM_CHANGED, 2),
      (REC_EVENT_FIRST_VIDEO_FRAME, 4), (REC_EVENT_FIRST_AUDIO_FRAME, 2),
      (RTC_EVENT_AUDIO_VOLUME_INDICATION, 2),
      (REC_EVENT_REMOTE_VIDEO_STREAM_STATE_CHANGED, 3),
      (REC_EVENT_REMOTE_AUDIO_STREAM_STATE_CHANGED, 3),
      (REC_EVENT_REJOIN_SUCCESS, 2), (REC_EVENT_CONN_STATE_CHANGED, 2),
      (REC_EVENT_REMOTE_VIDEO_STATS, 2), (REC_EVENT_REMOTE_AUDIO_STATS, 2),
      (REC_EVENT_RECORDING_STATS, 1), (REC_EVENT_LOCAL_USER_REGISTER, 2),
      (REC_EVENT_USER_INFO_UPDATED, 2)]"

definition sdk_on :: "state \<Rightarrow> AgoraRecorderEvent \<times> nat \<Rightarrow> state" where
  "sdk_on s h = logCall (Sdk_on (fst h)) (s\<lparr>sdk_handlers := sdk_handlers s @ [h]\<rparr>)"

definition initEventHandler :: "state \<Rightarrow> state" where
  "initEventHandler s = foldl sdk_on s relays"

text \<open>
  \<^verbatim>\<open>constructor(private config)\<close>, called with a reference \<open>r\<close> to the caller's object in the
  store \<open>h\<close>. The result is the state it leaves and the error it throws, if any. The later
  revision passes a truthy \<^verbatim>\<open>logLevel\<close> to the engine.
\<close>

definition constructor ::
  "revision \<Rightarrow> env \<Rightarrow> (nat \<Rightarrow> AgoraRecorderConfig) \<Rightarrow> nat \<Rightarrow> state \<times> error option" where
  "constructor v e h r =
     (let s0 = \<lparr>heap = h(r := assignDefaults (h r)), config = r, date = now e,
                sdk_handlers = [], listeners = [], promises = [], timers = [],
                awaiting = [], calls = []\<rparr>
      in case recordPath e s0 of
           Inl err \<Rightarrow> (s0, Some err)
         | Inr p \<Rightarrow>
             (let s1 = logCall (Fs_mkdirSync p) s0
              in case mkdirSync_throws e p of
                   Some err \<Rightarrow> (s1, Some err)
                 | None \<Rightarrow>
                     (let s2 = logCall Sdk_new s1;
                          s3 = (case logLevel (heap s2 r) of
                                  Some l \<Rightarrow>
                                    if v = part_000 \<and> l \<noteq> 0 then logCall (Sdk_setLogLevel l) s2
                                    else s2
                                | None \<Rightarrow> s2)
                      in (initEventHandler s3, None))))"

subsection \<open>\<^verbatim>\<open>start\<close>, \<^verbatim>\<open>stop\<close>, \<^verbatim>\<open>setMixLayout\<close>\<close>

text \<open>
  \<^verbatim>\<open>start()\<close> up to its \<^verbatim>\<open>await fsPromises.writeFile(...)\<close>: the promise it returns is
  created, the file content is built and the write is issued. An exception here rejects the
  promise.
\<close>

definition start :: "env \<Rightarrow> state \<Rightarrow> state \<times> nat" where
  "start e s =
     (let pid = length (promises s);
          s1 = s\<lparr>promises := promises s @ [Pending]\<rparr>
      in case recordPath e s1 of
           Inl err \<Rightarrow> (reject pid (VError err) s1, pid)
         | Inr p \<Rightarrow>
             (let json = JObject [(''Recording_Dir'', JString p)];
                  cfgPath = path_join p ''/cfg.json'';
                  s2 = logCall (Fs_writeFile cfgPath (JSON_stringify json)) s1
              in (s2\<lparr>awaiting := awaiting s2 @ [(pid, cfgPath)]\<rparr>, pid)))"

text \<open>
  The rest of \<^verbatim>\<open>start()\<close>, run when the write of call \<open>pid\<close> has finished. A failed write
  rejects the promise. Otherwise the join is submitted and then, in the executor of the
  promise, the timer is set (later revision) and the two \<^verbatim>\<open>once\<close> listeners are registered.
\<close>

definition start_resume :: "revision \<Rightarrow> env \<Rightarrow> nat \<Rightarrow> error option \<Rightarrow> state \<Rightarrow> state" where
  "start_resume v e pid written s =
     (case map_of (awaiting s) pid of
        None \<Rightarrow> s
      | Some cfgPath \<Rightarrow>
          (let s1 = s\<lparr>awaiting := filter (\<lambda>(p, _). p \<noteq> pid) (awaiting s)\<rparr>
           in case written of
                Some err \<Rightarrow> reject pid (VError err) s1
              | None \<Rightarrow>
                  (let c = heap s1 (config s1);
                       s2 = logCall
                              (Sdk_joinChannel (appId c)
                                 (BuildTokenWithAccount (appId c) (certificate c) (channel c)
                                    (account c) SUBSCRIBER 0)
                                 (channel c) (account c)
                                 (path_resolve (cwd e) ''node_modules'' ''.bin'') cfgPath) s1;
                       (s3, timeout) =
                         (if v = part_000 then (let (s', tid) = setTimeout 5000 s2 in (s', Some tid))
                          else (s2, None));
                       s4 = once REC_EVENT_JOIN_CHANNEL (ResolveTrue pid timeout) s3;
                       s5 = once REC_EVENT_ERROR (RejectErr pid timeout) s4
                   in s5)))"

text \<open>The timer's callback: \<^verbatim>\<open>console.error('Joining channel timeout')\<close>, and nothing else.\<close>

definition timer_expires :: "nat \<Rightarrow> state \<Rightarrow> state" where
  "timer_expires tid s =
     (if tid < length (timers s) \<and> timers s ! tid = Armed
      then logCall (Console_error ''Joining channel timeout'')
             (s\<lparr>timers := (timers s)[tid := Expired]\<rparr>)
      else s)"

definition stop :: "state \<Rightarrow> state" where
  "stop s = logCall Sdk_release (logCall Sdk_leaveChannel s)"

definition setMixLayout :: "AgoraVideoMixingLayout \<Rightarrow> state \<Rightarrow> state" where
  "setMixLayout layout s = logCall (Sdk_setMixLayout layout) s"

text \<open>
  The native engine calls back with event \<open>k\<close>: every handler attached to \<^verbatim>\<open>this.sdk\<close> for
  \<open>k\<close> re-emits it on the recorder.
\<close>

definition native_callback :: "AgoraRecorderEvent \<Rightarrow> val list \<Rightarrow> state \<Rightarrow> state" where
  "native_callback k args s =
     foldl (\<lambda>s (k', n). if k' = k then emit k (params n args) s else s) s (sdk_handlers s)"

subsection \<open>Executions\<close>

text \<open>
  What can happen to a constructed recorder, one event-loop turn at a time: the
  application calls a method or attaches a listener, a write finishes, the native engine
  calls back, a timer expires.
\<close>

datatype input =
    CallStart
  | WriteFileDone nat "error option"
  | NativeCallback AgoraRecorderEvent "val list"
  | TimerExpires nat
  | CallStop
  | CallSetMixLayout AgoraVideoMixingLayout
  | CallOn AgoraRecorderEvent nat

fun step :: "revision \<Rightarrow> env \<Rightarrow> state \<Rightarrow> input \<Rightarrow> state" where
  "step v e s CallStart = fst (start e s)"
| "step v e s (WriteFileDone pid written) = start_resume v e pid written s"
| "step v e s (NativeCallback k args) = native_callback k args s"
| "step v e s (TimerExpires tid) = timer_expires tid s"
| "step v e s CallStop = stop s"
| "step v e s (CallSetMixLayout layout) = setMixLayout layout s"
| "step v e s (CallOn k n) = on k (External n) s"

definition run :: "revision \<Rightarrow> env \<Rightarrow> state \<Rightarrow> input list \<Rightarrow> state" where
  "run v e s ins = foldl (step v e) s ins"

text \<open>The states of the executions that begin with a successful construction.\<close>

inductive reachable :: "revision \<Rightarrow> env \<Rightarrow> state \<Rightarrow> bool" for v e where
  constructed: "constructor v e h r = (s, None) \<Longrightarrow> reachable v e s"
| stepped: "reachable v e s \<Longrightarrow> reachable v e (step v e s i)"

text \<open>The promise of the \<^verbatim>\<open>start()\<close> call \<open>pid\<close>.\<close>

definition promise_of :: "nat \<Rightarrow> state \<Rightarrow> promise option" where
  "promise_of pid s = (if pid < length (promises s) then Some (promises s ! pid) else None)"

section \<open>Properties\<close>

subsection \<open>Vocabulary\<close>

text \<open>
  A registered listener is in order when a \<open>ResolveTrue\<close> stands under the join event and a
  \<open>RejectErr\<close> under the error event, each for a promise that exists and whose \<^verbatim>\<open>start()\<close>
  call is no longer waiting for its write.
\<close>

fun listener_ok :: "nat \<Rightarrow> nat set \<Rightarrow> AgoraRecorderEvent \<Rightarrow> listener \<Rightarrow> bool" where
  "listener_ok n A k (ResolveTrue pid t) = (k = REC_EVENT_JOIN_CHANNEL \<and> pid < n \<and> pid \<notin> A)"
| "listener_ok n A k (RejectErr pid t) = (k = REC_EVENT_ERROR \<and> pid < n \<and> pid \<notin> A)"
| "listener_ok n A k (External m) = True"

text \<open>
  The invariant of the executions: the engine handlers are those of \<^verbatim>\<open>initEventHandler\<close>,
  the listeners are in order, a suspended \<^verbatim>\<open>start()\<close> call has a pending promise, and the
  configuration has its output directory and template.
\<close>

definition wellformed :: "state \<Rightarrow> bool" where
  "wellformed s =
     (sdk_handlers s = relays
      \<and> (\<forall>(k, b, l) \<in> set (listeners s).
            listener_ok (length (promises s)) (fst ` set (awaiting s)) k l)
      \<and> (\<forall>(pid, c) \<in> set (awaiting s). pid < length (promises s) \<and> promises s ! pid = Pending)
      \<and> recordDirTmpl (heap s (config s)) \<noteq> None
      \<and> outputDir (heap s (config s)) \<noteq> None)"

text \<open>The listeners that settle promise \<open>pid\<close>.\<close>

fun resolves :: "nat \<Rightarrow> listener \<Rightarrow> bool" where
  "resolves pid (ResolveTrue q t) = (q = pid)"
| "resolves pid l = False"

fun rejects :: "nat \<Rightarrow> listener \<Rightarrow> bool" where
  "rejects pid (RejectErr q t) = (q = pid)"
| "rejects pid l = False"

text \<open>
  The join of call \<open>pid\<close> is in flight: its promise is pending and its two \<^verbatim>\<open>once\<close>
  listeners are registered.
\<close>

definition join_pending :: "nat \<Rightarrow> state \<Rightarrow> bool" where
  "join_pending pid s =
     (promise_of pid s = Some Pending
      \<and> (\<exists>t. (REC_EVENT_JOIN_CHANNEL, True, ResolveTrue pid t) \<in> set (listeners s)
             \<and> (REC_EVENT_ERROR, True, RejectErr pid t) \<in> set (listeners s)))"

text \<open>An input other than the native join-success and join-error callbacks.\<close>

fun quiet :: "input \<Rightarrow> bool" where
  "quiet (NativeCallback k args) = (k \<noteq> REC_EVENT_JOIN_CHANNEL \<and> k \<noteq> REC_EVENT_ERROR)"
| "quiet i = True"

text \<open>
  A path segment that \<^verbatim>\<open>normalizeString\<close> keeps as it is: not empty, not \<^verbatim>\<open>.\<close> or \<^verbatim>\<open>..\<close>,
  and without a separator.
\<close>

definition clean :: "string \<Rightarrow> bool" where
  "clean seg = (seg \<noteq> [] \<and> seg \<noteq> ''.'' \<and> seg \<noteq> ''..'' \<and> CHR ''/'' \<notin> set seg)"

text \<open>
  A configuration with only the three mandatory fields, an environment whose clock reads
  2024-01-01 10:00:00 and whose \<^verbatim>\<open>mkdirSync\<close> succeeds, and the recorder constructed from
  them, before and after a call of \<^verbatim>\<open>start()\<close>.
\<close>

definition cfg_room1 :: AgoraRecorderConfig where
  "cfg_room1 = \<lparr>appId = ''A'', certificate = ''C'', channel = ''room1'', account = None,
                 outputDir = None, recordDirTmpl = None, logLevel = None\<rparr>"

definition date_2024 :: Date where
  "date_2024 = \<lparr>getFullYear = 2024, getMonth = 0, getDate = 1,
                 getHours = 10, getMinutes = 0, getSeconds = 0\<rparr>"

definition env_2024 :: env where
  "env_2024 = \<lparr>cwd = ''/srv/app'', now = date_2024, mkdirSync_throws = (\<lambda>_. None)\<rparr>"

definition new_room1 :: "revision \<Rightarrow> state" where
  "new_room1 v = fst (constructor v env_2024 (\<lambda>_. cfg_room1) 0)"

definition started_room1 :: "revision \<Rightarrow> state" where
  "started_room1 v = step v env_2024 (new_room1 v) CallStart"

definition joining_room1 :: "revision \<Rightarrow> state" where
  "joining_room1 v = step v env_2024 (started_room1 v) (WriteFileDone 0 None)"

text \<open>The native codes a value holds: a number holds itself, nothing else holds any.\<close>

fun codes :: "val \<Rightarrow> int list" where
  "codes (VNum n) = [n]"
| "codes v = []"

text \<open>A configuration whose channel, application id and certificate are empty.\<close>

definition cfg_empty :: AgoraRecorderConfig where
  "cfg_empty = \<lparr>appId = [], certificate = [], channel = [], account = None,
                 outputDir = None, recordDirTmpl = None, logLevel = None\<rparr>"

text \<open>
  The output directory and the template the getter reads once the constructor has made its
  assignments: the caller's, or the default where the caller's is missing (or, for the
  directory, empty).
\<close>

definition effective_outputDir :: "AgoraRecorderConfig \<Rightarrow> string" where
  "effective_outputDir c =
     (case outputDir c of None \<Rightarrow> ''output'' | Some d \<Rightarrow> if d = [] then ''output'' else d)"

definition effective_recordDirTmpl :: "AgoraRecorderConfig \<Rightarrow> string \<Rightarrow> Date \<Rightarrow> string" where
  "effective_recordDirTmpl c =
     (case recordDirTmpl c of None \<Rightarrow> defaultRecordDirTmpl | Some tmpl \<Rightarrow> tmpl)"

text \<open>
  An execution in which every turn has an environment of its own: the clock and the
  working directory of the process may change between turns.
\<close>

definition run_in :: "revision \<Rightarrow> state \<Rightarrow> (env \<times> input) list \<Rightarrow> state" where
  "run_in v s eins = foldl (\<lambda>s (e, i). step v e s i) s eins"




subsection \<open>Paths\<close>

lemma segments_nonempty [simp]: "segments p \<noteq> []"
  by (induction p) (auto split: list.splits)

lemma segments_no_slash:
  "x \<in> set (segments p) \<Longrightarrow> CHR ''/'' \<notin> set x"
  by (induction p arbitrary: x) (auto split: list.splits if_splits)

lemma segments_slash_free:
  "CHR ''/'' \<notin> set s \<Longrightarrow> segments s = [s]"
  by (induction s) auto

lemma segments_append:
  "segments (a @ CHR ''/'' # b) = segments a @ segments b"
  by (induction a) (auto split: list.splits)

lemma joinSegments_append:
  "xs \<noteq> [] \<Longrightarrow> ys \<noteq> [] \<Longrightarrow>
     joinSegments (xs @ ys) = joinSegments xs @ CHR ''/'' # joinSegments ys"
  by (induction xs rule: joinSegments.induct) (auto simp: neq_Nil_conv)

lemma segments_joinSegments:
  "segs \<noteq> [] \<Longrightarrow> \<forall>x \<in> set segs. CHR ''/'' \<notin> set x \<Longrightarrow> segments (joinSegments segs) = segs"
  by (induction segs rule: joinSegments.induct)
     (simp_all add: segments_slash_free segments_append)

lemma normalizeStep_clean:
  "clean seg \<Longrightarrow> normalizeStep b res seg = res @ [seg]"
  by (simp add: normalizeStep_def clean_def)

lemma normalize_clean_segments:
  "\<forall>x \<in> set xs. clean x \<Longrightarrow> foldl (normalizeStep b) acc xs = acc @ xs"
  by (induction xs arbitrary: acc) (simp_all add: normalizeStep_clean)

lemma normalizeStep_keeps_clean:
  assumes "\<forall>y \<in> set res. clean y" and "CHR ''/'' \<notin> set seg"
  shows "\<forall>y \<in> set (normalizeStep False res seg). clean y"
  using assms by (auto simp: normalizeStep_def clean_def dest: in_set_butlastD)

lemma normalize_gives_clean:
  assumes "\<forall>y \<in> set acc. clean y" and "\<forall>x \<in> set xs. CHR ''/'' \<notin> set x"
  shows "\<forall>y \<in> set (foldl (normalizeStep False) acc xs). clean y"
  using assms
proof (induction xs arbitrary: acc)
  case Nil
  then show ?case by simp
next
  case (Cons x xs)
  from Cons.prems have "\<forall>y \<in> set (normalizeStep False acc x). clean y"
    by (intro normalizeStep_keeps_clean) simp_all
  with Cons show ?case by simp
qed

lemma path_resolve_absolute:
  assumes "isAbsolute wd"
  shows "\<exists>segs. path_resolve wd a b = CHR ''/'' # joinSegments segs \<and> (\<forall>x \<in> set segs. clean x)"
proof -
  have c: "\<forall>y \<in> set (foldl (normalizeStep False) [] (segments p)). clean y" for p
    by (rule normalize_gives_clean) (simp_all add: segments_no_slash)
  from assms have "wd \<noteq> []" by (auto simp: isAbsolute_def)
  with assms c show ?thesis
    by (auto simp: path_resolve_def Let_def normalizeString_def)
qed

lemma joinSegments_eq_Nil:
  "\<forall>x \<in> set segs. clean x \<Longrightarrow> joinSegments segs = [] \<longleftrightarrow> segs = []"
  by (induction segs rule: joinSegments.induct) (auto simp: clean_def)

lemma path_join_cfg:
  assumes "\<forall>x \<in> set segs. clean x"
  shows "path_join (CHR ''/'' # joinSegments segs) ''/cfg.json'' =
     (if segs = [] then ''/cfg.json'' else CHR ''/'' # joinSegments segs @ ''/cfg.json'')"
proof (cases "segs = []")
  case True
  then show ?thesis
    by (simp add: path_join_def path_normalize_def isAbsolute_def normalizeString_def
                  normalizeStep_def)
next
  case False
  have cj: "clean ''cfg.json''" by (simp add: clean_def)
  from assms have ns: "\<forall>x \<in> set segs. CHR ''/'' \<notin> set x" by (simp add: clean_def)
  have "segments (CHR ''/'' # joinSegments segs @ CHR ''/'' # ''/cfg.json'')
          = [] # segs @ [[], ''cfg.json'']"
    using False ns by (simp add: segments_append segments_joinSegments)
  moreover have "foldl (normalizeStep False) [] ([] # segs @ [[], ''cfg.json''])
          = segs @ [''cfg.json'']"
    using assms cj
    by (simp add: normalize_clean_segments) (simp add: normalizeStep_def)
  ultimately have "normalizeString (CHR ''/'' # joinSegments segs @ CHR ''/'' # ''/cfg.json'') False
          = joinSegments segs @ ''/cfg.json''"
    using False by (simp add: normalizeString_def joinSegments_append)
  with False show ?thesis
    by (simp add: path_join_def path_normalize_def isAbsolute_def)
qed

lemma path_join_resolved:
  assumes "isAbsolute wd"
  shows "isAbsolute (path_resolve wd a b) \<and>
     path_join (path_resolve wd a b) ''/cfg.json'' =
       (if path_resolve wd a b = ''/'' then ''/cfg.json'' else path_resolve wd a b @ ''/cfg.json'')"
proof -
  from path_resolve_absolute[OF assms] obtain segs
    where p: "path_resolve wd a b = CHR ''/'' # joinSegments segs" and c: "\<forall>x \<in> set segs. clean x"
    by blast
  from c have "joinSegments segs = [] \<longleftrightarrow> segs = []" by (rule joinSegments_eq_Nil)
  with path_join_cfg[OF c] show ?thesis
    by (auto simp: p isAbsolute_def)
qed

lemma path_resolve_default_room1:
  "\<exists>pre. path_resolve wd ''output'' ''2024-01-01/10:00:00 room1''
         = pre @ ''output/2024-01-01/10:00:00 room1''"
proof -
  have step3: "foldl (normalizeStep b) acc [''output'', ''2024-01-01'', ''10:00:00 room1'', []]
      = acc @ [''output'', ''2024-01-01'', ''10:00:00 room1'']" for b acc
    by (simp add: normalizeStep_def)
  have j: "\<exists>pre. joinSegments (acc @ [''output'', ''2024-01-01'', ''10:00:00 room1''])
      = pre @ ''output/2024-01-01/10:00:00 room1''" for acc
  proof (cases "acc = []")
    case True
    then show ?thesis by simp
  next
    case False
    then show ?thesis by (simp add: joinSegments_append)
  qed
  have s2: "segments ''output/2024-01-01/10:00:00 room1/''
      = [''output'', ''2024-01-01'', ''10:00:00 room1'', []]" by simp
  have n: "\<exists>pre. normalizeString (wd @ CHR ''/'' # ''output/2024-01-01/10:00:00 room1/'') b
      = pre @ ''output/2024-01-01/10:00:00 room1''" for b
    unfolding normalizeString_def segments_append s2 foldl_append step3 by (rule j)
  show ?thesis
  proof (cases "wd = []")
    case True
    then show ?thesis
      by (simp add: path_resolve_def isAbsolute_def normalizeString_def normalizeStep_def)
  next
    case False
    show ?thesis
    proof (cases "isAbsolute wd")
      case True
      from n[of False] obtain pre
        where "normalizeString (wd @ CHR ''/'' # ''output/2024-01-01/10:00:00 room1/'') False
                 = pre @ ''output/2024-01-01/10:00:00 room1''" by blast
      with True False have "path_resolve wd ''output'' ''2024-01-01/10:00:00 room1''
          = (CHR ''/'' # pre) @ ''output/2024-01-01/10:00:00 room1''"
        by (simp add: path_resolve_def isAbsolute_def)
      then show ?thesis by blast
    next
      case rel: False
      from n[of True] obtain pre
        where "normalizeString (wd @ CHR ''/'' # ''output/2024-01-01/10:00:00 room1/'') True
                 = pre @ ''output/2024-01-01/10:00:00 room1''" by blast
      with rel False have "path_resolve wd ''output'' ''2024-01-01/10:00:00 room1''
          = pre @ ''output/2024-01-01/10:00:00 room1''"
        by (simp add: path_resolve_def isAbsolute_def)
      then show ?thesis by blast
    qed
  qed
qed

subsection \<open>What the primitive operations leave alone\<close>

lemma logCall_fields [simp]:
  "heap (logCall c s) = heap s" "config (logCall c s) = config s" "date (logCall c s) = date s"
  "sdk_handlers (logCall c s) = sdk_handlers s" "listeners (logCall c s) = listeners s"
  "promises (logCall c s) = promises s" "timers (logCall c s) = timers s"
  "awaiting (logCall c s) = awaiting s" "calls (logCall c s) = calls s @ [c]"
  by (simp_all add: logCall_def)

lemma settle_fields [simp]:
  "heap (settle p x s) = heap s" "config (settle p x s) = config s" "date (settle p x s) = date s"
  "sdk_handlers (settle p x s) = sdk_handlers s" "listeners (settle p x s) = listeners s"
  "timers (settle p x s) = timers s" "awaiting (settle p x s) = awaiting s"
  "calls (settle p x s) = calls s" "length (promises (settle p x s)) = length (promises s)"
  by (simp_all add: settle_def)

lemma clearTimeout_fields [simp]:
  "heap (clearTimeout t s) = heap s" "config (clearTimeout t s) = config s" "date (clearTimeout t s) = date s"
  "sdk_handlers (clearTimeout t s) = sdk_handlers s" "listeners (clearTimeout t s) = listeners s"
  "promises (clearTimeout t s) = promises s" "awaiting (clearTimeout t s) = awaiting s"
  "calls (clearTimeout t s) = calls s @ [Timer_clearTimeout t]"
  "length (timers (clearTimeout t s)) = length (timers s)"
  by (simp_all add: clearTimeout_def)

lemma invoke_fields [simp]:
  "heap (invoke k a l s) = heap s" "config (invoke k a l s) = config s" "date (invoke k a l s) = date s"
  "sdk_handlers (invoke k a l s) = sdk_handlers s" "listeners (invoke k a l s) = listeners s"
  "awaiting (invoke k a l s) = awaiting s"
  "length (promises (invoke k a l s)) = length (promises s)"
  by (induction k a l s rule: invoke.induct; simp add: resolve_def reject_def)+

subsection \<open>The invariant\<close>

lemma wellformed_logCall [simp]: "wellformed (logCall c s) = wellformed s"
  by (simp add: wellformed_def)

lemma wellformed_clearTimeout [simp]: "wellformed (clearTimeout t s) = wellformed s"
  by (simp add: wellformed_def)

lemma wellformed_settle:
  assumes "wellformed s" and "pid \<notin> fst ` set (awaiting s)"
  shows "wellformed (settle pid x s)"
proof -
  have "promises (settle pid x s) ! q = Pending"
    if "(q, c) \<in> set (awaiting s)" for q c
  proof -
    from that assms(2) have "q \<noteq> pid" by force
    moreover from that assms(1) have "promises s ! q = Pending"
      by (auto simp: wellformed_def)
    ultimately show ?thesis by (simp add: settle_def)
  qed
  with assms(1) show ?thesis
    by (auto simp: wellformed_def)
qed

lemma wellformed_invoke:
  assumes "wellformed s"
    and "listener_ok (length (promises s)) (fst ` set (awaiting s)) k l"
  shows "wellformed (invoke k a l s)"
  using assms
  by (induction k a l s rule: invoke.induct)
     (simp_all add: resolve_def reject_def wellformed_settle)

lemma wellformed_invoke_all:
  assumes "wellformed s"
    and "\<forall>(k', b, l) \<in> set ls. listener_ok (length (promises s)) (fst ` set (awaiting s)) k l"
  shows "wellformed (foldl (\<lambda>s (_, _, l). invoke k a l s) s ls)"
  using assms
proof (induction ls arbitrary: s)
  case Nil
  then show ?case by simp
next
  case (Cons x ls)
  obtain k' b l where x: "x = (k', b, l)" by (cases x)
  from Cons.prems x have "wellformed (invoke k a l s)"
    by (simp add: wellformed_invoke)
  moreover from Cons.prems
  have "\<forall>(k', b, l') \<in> set ls.
          listener_ok (length (promises (invoke k a l s))) (fst ` set (awaiting (invoke k a l s))) k l'"
    by simp
  ultimately show ?case using Cons.IH x by simp
qed

lemma wellformed_emit:
  assumes "wellformed s"
  shows "wellformed (emit k a s)"
proof -
  let ?s1 = "logCall (This_emit k a)
               (s\<lparr>listeners := filter (\<lambda>(k', once, _). \<not> (k' = k \<and> once)) (listeners s)\<rparr>)"
  from assms have "wellformed ?s1"
    by (auto simp: wellformed_def)
  moreover from assms
  have "\<forall>(k', b, l) \<in> set (filter (\<lambda>(k', _, _). k' = k) (listeners s)).
          listener_ok (length (promises ?s1)) (fst ` set (awaiting ?s1)) k l"
    by (auto simp: wellformed_def)
  ultimately show ?thesis
    unfolding emit_def Let_def by (rule wellformed_invoke_all)
qed

lemma emit_fields [simp]:
  "heap (emit k a s) = heap s" "config (emit k a s) = config s" "date (emit k a s) = date s"
  "sdk_handlers (emit k a s) = sdk_handlers s" "awaiting (emit k a s) = awaiting s"
  "length (promises (emit k a s)) = length (promises s)"
proof -
  have *: "heap (foldl (\<lambda>s (_, _, l). invoke k a l s) t ls) = heap t
      \<and> config (foldl (\<lambda>s (_, _, l). invoke k a l s) t ls) = config t
      \<and> date (foldl (\<lambda>s (_, _, l). invoke k a l s) t ls) = date t
      \<and> sdk_handlers (foldl (\<lambda>s (_, _, l). invoke k a l s) t ls) = sdk_handlers t
      \<and> awaiting (foldl (\<lambda>s (_, _, l). invoke k a l s) t ls) = awaiting t
      \<and> length (promises (foldl (\<lambda>s (_, _, l). invoke k a l s) t ls)) = length (promises t)"
    for t and ls :: "(AgoraRecorderEvent \<times> bool \<times> listener) list"
    by (induction ls arbitrary: t) (auto split: prod.splits)
  show "heap (emit k a s) = heap s" "config (emit k a s) = config s" "date (emit k a s) = date s"
  "sdk_handlers (emit k a s) = sdk_handlers s" "awaiting (emit k a s) = awaiting s"
  "length (promises (emit k a s)) = length (promises s)"
    by (simp_all add: emit_def Let_def *)
qed

lemma native_callback_relays:
  assumes "sdk_handlers s = relays"
  shows "native_callback k a s = emit k (params (the (map_of relays k)) a) s"
  using assms by (cases k) (simp_all add: native_callback_def relays_def)

lemma wellformed_native_callback:
  assumes "wellformed s"
  shows "wellformed (native_callback k a s)"
proof -
  from assms have "sdk_handlers s = relays" by (simp add: wellformed_def)
  then show ?thesis using assms
    by (simp add: native_callback_relays wellformed_emit)
qed

lemma wellformed_recordPath:
  assumes "wellformed s"
  shows "\<exists>p. recordPath e s = Inr p"
  using assms by (auto simp: wellformed_def recordPath_def Let_def)

lemma wellformed_start:
  assumes "wellformed s"
  shows "wellformed (fst (start e s))"
proof -
  let ?s1 = "s\<lparr>promises := promises s @ [Pending]\<rparr>"
  have rp: "recordPath e ?s1 = recordPath e s" by (simp add: recordPath_def cong: option.case_cong)
  from wellformed_recordPath[OF assms] obtain p where p: "recordPath e s = Inr p" by blast
  have "listener_ok (Suc (length (promises s))) (insert (length (promises s)) A) k l"
    if "listener_ok (length (promises s)) A k l" for A k l
    using that by (cases l) auto
  with assms show ?thesis
    by (auto simp: start_def Let_def rp p wellformed_def nth_append)
qed

lemma awaiting_filter_fst:
  "fst ` set (filter (\<lambda>(p, _). p \<noteq> pid) xs) = fst ` set xs - {pid}"
  by (induction xs) auto

lemma awaiting_filter_fst':
  "fst ` {x \<in> set xs. case x of (p, _) \<Rightarrow> p \<noteq> pid} = fst ` set xs - {pid}"
  using awaiting_filter_fst[of pid xs] by simp

lemma wellformed_start_resume:
  assumes "wellformed s"
  shows "wellformed (start_resume v e pid w s)"
proof (cases "map_of (awaiting s) pid")
  case None
  then show ?thesis using assms by (simp add: start_resume_def)
next
  case (Some cfgPath)
  then have mem: "(pid, cfgPath) \<in> set (awaiting s)" by (rule map_of_SomeD)
  with assms have lt: "pid < length (promises s)" by (auto simp: wellformed_def)
  let ?s1 = "s\<lparr>awaiting := filter (\<lambda>(p, _). p \<noteq> pid) (awaiting s)\<rparr>"
  have ok: "listener_ok n (A - {pid}) k l" if "listener_ok n A k l" for n A k l
    using that by (cases l) auto
  from assms have wf1: "wellformed ?s1"
    by (auto simp: wellformed_def awaiting_filter_fst' ok)
  have notin: "pid \<notin> fst ` set (awaiting ?s1)" by (simp add: awaiting_filter_fst')
  show ?thesis
  proof (cases w)
    case (Some err)
    then show ?thesis using \<open>map_of (awaiting s) pid = Some cfgPath\<close> wf1 notin
      by (simp add: start_resume_def reject_def wellformed_settle)
  next
    case None
    from wf1 lt notin show ?thesis
      using \<open>map_of (awaiting s) pid = Some cfgPath\<close> None
      by (auto simp: start_resume_def Let_def once_def setTimeout_def wellformed_def
               split: prod.splits)
  qed
qed

lemma wellformed_others:
  assumes "wellformed s"
  shows "wellformed (timer_expires tid s)" and "wellformed (stop s)"
    and "wellformed (setMixLayout layout s)" and "wellformed (on k (External n) s)"
  using assms
  by (auto simp: timer_expires_def stop_def setMixLayout_def on_def wellformed_def)

lemma wellformed_step:
  assumes "wellformed s"
  shows "wellformed (step v e s i)"
  using assms
  by (cases i)
     (simp_all add: wellformed_start wellformed_start_resume wellformed_native_callback
                    wellformed_others)

lemma assignDefaults_defined:
  "recordDirTmpl (assignDefaults c) \<noteq> None" "outputDir (assignDefaults c) \<noteq> None"
  "account (assignDefaults c) \<noteq> None"
  by (auto simp: assignDefaults_def Let_def falsy_def)

lemma initEventHandler_eq:
  "initEventHandler s =
     s\<lparr>sdk_handlers := sdk_handlers s @ relays, calls := calls s @ map (Sdk_on \<circ> fst) relays\<rparr>"
  by (simp add: initEventHandler_def relays_def sdk_on_def logCall_def)

lemma wellformed_constructor:
  assumes "constructor v e h r = (s, None)"
  shows "wellformed s"
  using assms
  by (auto simp: constructor_def Let_def initEventHandler_eq wellformed_def logCall_def
                 recordPath_def assignDefaults_defined
           split: sum.splits option.splits if_splits)

lemma reachable_wellformed:
  assumes "reachable v e s"
  shows "wellformed s"
  using assms
  by (induction rule: reachable.induct) (auto intro: wellformed_constructor wellformed_step)

subsection \<open>How the promise of a call changes\<close>

lemma promise_of_settle:
  "promise_of pid (settle q x s) =
     (if q = pid \<and> promise_of pid s = Some Pending then Some x else promise_of pid s)"
  by (auto simp: promise_of_def settle_def nth_list_update)

lemma promise_of_update [simp]:
  "promise_of pid (s\<lparr>awaiting := aw\<rparr>) = promise_of pid s"
  "promise_of pid (s\<lparr>listeners := ls\<rparr>) = promise_of pid s"
  "promise_of pid (s\<lparr>timers := ts\<rparr>) = promise_of pid s"
  "promise_of pid (s\<lparr>calls := cs\<rparr>) = promise_of pid s"
  by (simp_all add: promise_of_def)

lemma promise_of_new:
  "promise_of pid (s\<lparr>promises := promises s @ [x]\<rparr>) =
     (if pid = length (promises s) then Some x else promise_of pid s)"
  by (auto simp: promise_of_def nth_append)

lemma promise_of_logCall [simp]: "promise_of pid (logCall c s) = promise_of pid s"
  by (simp add: promise_of_def)

lemma promise_of_clearTimeout [simp]: "promise_of pid (clearTimeout t s) = promise_of pid s"
  by (simp add: promise_of_def)

lemma promise_of_invoke:
  "promise_of pid (invoke k a l s) =
     (if promise_of pid s = Some Pending \<and> resolves pid l then Some (Fulfilled (VBool True))
      else if promise_of pid s = Some Pending \<and> rejects pid l then Some (Rejected (arg 0 a))
      else promise_of pid s)"
  by (induction k a l s rule: invoke.induct)
     (simp_all add: resolve_def reject_def promise_of_settle)

lemma promise_of_invoke_all_resolve:
  assumes "\<forall>(k', b, l) \<in> set ls. \<not> rejects pid l"
  shows "promise_of pid (foldl (\<lambda>s (_, _, l). invoke k a l s) s ls) =
     (if promise_of pid s = Some Pending \<and> (\<exists>(k', b, l) \<in> set ls. resolves pid l)
      then Some (Fulfilled (VBool True)) else promise_of pid s)"
  using assms
proof (induction ls arbitrary: s)
  case Nil
  then show ?case by simp
next
  case (Cons x ls)
  obtain k' b l where x: "x = (k', b, l)" by (cases x)
  from Cons.prems have rest: "\<forall>(k', b, l) \<in> set ls. \<not> rejects pid l" by simp
  from Cons.prems x have l: "\<not> rejects pid l" by simp
  show ?case
    using Cons.IH[OF rest, of "invoke k a l s"] l
    by (auto simp: x promise_of_invoke)
qed

lemma promise_of_invoke_all_reject:
  assumes "\<forall>(k', b, l) \<in> set ls. \<not> resolves pid l"
  shows "promise_of pid (foldl (\<lambda>s (_, _, l). invoke k a l s) s ls) =
     (if promise_of pid s = Some Pending \<and> (\<exists>(k', b, l) \<in> set ls. rejects pid l)
      then Some (Rejected (arg 0 a)) else promise_of pid s)"
  using assms
proof (induction ls arbitrary: s)
  case Nil
  then show ?case by simp
next
  case (Cons x ls)
  obtain k' b l where x: "x = (k', b, l)" by (cases x)
  from Cons.prems have rest: "\<forall>(k', b, l) \<in> set ls. \<not> resolves pid l" by simp
  from Cons.prems x have l: "\<not> resolves pid l" by simp
  show ?case
    using Cons.IH[OF rest, of "invoke k a l s"] l
    by (auto simp: x promise_of_invoke)
qed

lemma listener_ok_kind:
  assumes "listener_ok n A k l"
  shows "resolves pid l \<Longrightarrow> k = REC_EVENT_JOIN_CHANNEL" and "rejects pid l \<Longrightarrow> k = REC_EVENT_ERROR"
  using assms by (cases l; simp)+

lemma listeners_emit:
  "listeners (emit k a s) = filter (\<lambda>(k', once, _). \<not> (k' = k \<and> once)) (listeners s)"
proof -
  have "listeners (foldl (\<lambda>s (_, _, l). invoke k a l s) t ls) = listeners t"
    for t and ls :: "(AgoraRecorderEvent \<times> bool \<times> listener) list"
    by (induction ls arbitrary: t) (auto split: prod.splits)
  then show ?thesis by (simp add: emit_def Let_def)
qed

lemma promise_of_emit:
  assumes "wellformed s"
  shows "promise_of pid (emit k a s) =
     (if promise_of pid s = Some Pending \<and> k = REC_EVENT_JOIN_CHANNEL
         \<and> (\<exists>(k', b, l) \<in> set (listeners s). k' = k \<and> resolves pid l)
      then Some (Fulfilled (VBool True))
      else if promise_of pid s = Some Pending \<and> k = REC_EVENT_ERROR
         \<and> (\<exists>(k', b, l) \<in> set (listeners s). k' = k \<and> rejects pid l)
      then Some (Rejected (arg 0 a))
      else promise_of pid s)"
proof -
  let ?ls = "filter (\<lambda>(k', _, _). k' = k) (listeners s)"
  let ?s1 = "logCall (This_emit k a)
               (s\<lparr>listeners := filter (\<lambda>(k', once, _). \<not> (k' = k \<and> once)) (listeners s)\<rparr>)"
  have e: "emit k a s = foldl (\<lambda>s (_, _, l). invoke k a l s) ?s1 ?ls"
    by (simp add: emit_def Let_def)
  have p1: "promise_of pid ?s1 = promise_of pid s" by (simp add: promise_of_def)
  from assms have ok: "\<forall>(k', b, l) \<in> set ?ls.
      listener_ok (length (promises s)) (fst ` set (awaiting s)) k l"
    by (auto simp: wellformed_def)
  show ?thesis
  proof (cases "k = REC_EVENT_ERROR")
    case True
    with ok have "\<forall>(k', b, l) \<in> set ?ls. \<not> resolves pid l"
      by (auto dest: listener_ok_kind(1))
    from promise_of_invoke_all_reject[OF this, of k a ?s1]
    have "promise_of pid (emit k a s) =
       (if promise_of pid s = Some Pending \<and> (\<exists>(k', b, l) \<in> set ?ls. rejects pid l)
        then Some (Rejected (arg 0 a)) else promise_of pid s)"
      unfolding e p1 .
    with True show ?thesis by auto
  next
    case False
    with ok have nr: "\<forall>(k', b, l) \<in> set ?ls. \<not> rejects pid l"
      by (auto dest: listener_ok_kind(2))
    from promise_of_invoke_all_resolve[OF nr, of k a ?s1]
    have r: "promise_of pid (emit k a s) =
       (if promise_of pid s = Some Pending \<and> (\<exists>(k', b, l) \<in> set ?ls. resolves pid l)
        then Some (Fulfilled (VBool True)) else promise_of pid s)"
      unfolding e p1 .
    show ?thesis
    proof (cases "k = REC_EVENT_JOIN_CHANNEL")
      case True
      with r show ?thesis by auto
    next
      case nj: False
      with ok have "\<not> (\<exists>(k', b, l) \<in> set ?ls. resolves pid l)"
        by (auto dest: listener_ok_kind(1))
      with r False nj show ?thesis by simp
    qed
  qed
qed

lemma arg_params: "i < n \<Longrightarrow> arg i (params n a) = arg i a"
  by (simp add: arg_def params_def)

lemma relay_arity:
  "map_of relays REC_EVENT_JOIN_CHANNEL = Some 2" "map_of relays REC_EVENT_ERROR = Some 2"
  by (simp_all add: relays_def)

lemma promise_of_native_callback:
  assumes "wellformed s"
  shows "promise_of pid (native_callback k a s) =
     (if promise_of pid s = Some Pending \<and> k = REC_EVENT_JOIN_CHANNEL
         \<and> (\<exists>(k', b, l) \<in> set (listeners s). k' = k \<and> resolves pid l)
      then Some (Fulfilled (VBool True))
      else if promise_of pid s = Some Pending \<and> k = REC_EVENT_ERROR
         \<and> (\<exists>(k', b, l) \<in> set (listeners s). k' = k \<and> rejects pid l)
      then Some (Rejected (arg 0 a))
      else promise_of pid s)"
proof -
  from assms have h: "sdk_handlers s = relays" by (simp add: wellformed_def)
  show ?thesis
    unfolding native_callback_relays[OF h] promise_of_emit[OF assms]
    by (auto simp: relay_arity arg_params)
qed

lemma listeners_native_callback:
  assumes "wellformed s"
  shows "listeners (native_callback k a s) =
           filter (\<lambda>(k', once, _). \<not> (k' = k \<and> once)) (listeners s)"
proof -
  from assms have h: "sdk_handlers s = relays" by (simp add: wellformed_def)
  show ?thesis unfolding native_callback_relays[OF h] by (rule listeners_emit)
qed

lemma promise_of_start:
  assumes "pid < length (promises s)"
  shows "promise_of pid (fst (start e s)) = promise_of pid s"
  using assms
  by (auto simp: start_def Let_def reject_def promise_of_settle promise_of_new
           split: sum.splits)

lemma listeners_start [simp]: "listeners (fst (start e s)) = listeners s"
  by (auto simp: start_def Let_def reject_def split: sum.splits)

lemma promise_of_start_resume:
  "promise_of pid (start_resume v e q w s) =
     (if q = pid \<and> map_of (awaiting s) q \<noteq> None \<and> w \<noteq> None \<and> promise_of pid s = Some Pending
      then Some (Rejected (VError (the w))) else promise_of pid s)"
  by (auto simp: start_resume_def Let_def reject_def promise_of_settle once_def setTimeout_def
           split: option.splits prod.splits)

lemma listeners_start_resume:
  "set (listeners s) \<subseteq> set (listeners (start_resume v e q w s))"
  by (auto simp: start_resume_def Let_def reject_def once_def setTimeout_def
           split: option.splits prod.splits)

subsection \<open>Settled promises stay; a join in flight waits for its callback\<close>

lemma settled_step:
  assumes "wellformed s" and "promise_of pid s = Some p" and "p \<noteq> Pending"
  shows "promise_of pid (step v e s i) = Some p"
proof (cases i)
  case CallStart
  from assms(2) have "pid < length (promises s)"
    by (simp add: promise_of_def split: if_splits)
  with CallStart assms(2) show ?thesis by (simp add: promise_of_start)
next
  case (WriteFileDone q w)
  with assms(2,3) show ?thesis by (simp add: promise_of_start_resume)
next
  case (NativeCallback k a)
  with assms show ?thesis by (simp add: promise_of_native_callback)
next
  case (TimerExpires tid)
  with assms(2) show ?thesis by (simp add: timer_expires_def)
next
  case CallStop
  with assms(2) show ?thesis by (simp add: stop_def)
next
  case (CallSetMixLayout layout)
  with assms(2) show ?thesis by (simp add: setMixLayout_def)
next
  case (CallOn k n)
  with assms(2) show ?thesis by (simp add: on_def)
qed

lemma wellformed_run:
  assumes "wellformed s"
  shows "wellformed (run v e s ins)"
  using assms unfolding run_def
  by (induction ins arbitrary: s) (simp_all add: wellformed_step)

lemma settled_run:
  assumes "wellformed s" and "promise_of pid s = Some p" and "p \<noteq> Pending"
  shows "promise_of pid (run v e s ins) = Some p"
  using assms unfolding run_def
  by (induction ins arbitrary: s) (simp_all add: wellformed_step settled_step)

lemma wellformed_listener:
  assumes "wellformed s" and "(k, b, l) \<in> set (listeners s)"
  shows "listener_ok (length (promises s)) (fst ` set (awaiting s)) k l"
  using assms by (auto simp: wellformed_def)

lemma join_pending_not_awaiting:
  assumes "wellformed s" and "join_pending pid s"
  shows "map_of (awaiting s) pid = None"
proof -
  from assms(2) obtain t where "(REC_EVENT_JOIN_CHANNEL, True, ResolveTrue pid t) \<in> set (listeners s)"
    by (auto simp: join_pending_def)
  from wellformed_listener[OF assms(1) this] have "pid \<notin> fst ` set (awaiting s)"
    by simp
  then show ?thesis by (simp add: map_of_eq_None_iff)
qed

lemma join_pending_step:
  assumes "wellformed s" and "join_pending pid s" and "quiet i"
  shows "join_pending pid (step v e s i)"
proof (cases i)
  case CallStart
  from assms(2) have "pid < length (promises s)"
    by (simp add: join_pending_def promise_of_def split: if_splits)
  with CallStart assms(2) show ?thesis by (simp add: join_pending_def promise_of_start)
next
  case (WriteFileDone q w)
  from join_pending_not_awaiting[OF assms(1,2)]
  have "promise_of pid (start_resume v e q w s) = promise_of pid s"
    by (simp add: promise_of_start_resume)
  with WriteFileDone assms(2) listeners_start_resume[of s v e q w] show ?thesis
    by (auto simp: join_pending_def)
next
  case (NativeCallback k a)
  with assms(3) have k: "k \<noteq> REC_EVENT_JOIN_CHANNEL" "k \<noteq> REC_EVENT_ERROR" by simp_all
  with NativeCallback assms(1,2) show ?thesis
    by (auto simp: join_pending_def promise_of_native_callback listeners_native_callback)
next
  case (TimerExpires tid)
  with assms(2) show ?thesis by (simp add: timer_expires_def join_pending_def)
next
  case CallStop
  with assms(2) show ?thesis by (simp add: stop_def join_pending_def)
next
  case (CallSetMixLayout layout)
  with assms(2) show ?thesis by (simp add: setMixLayout_def join_pending_def)
next
  case (CallOn k n)
  with assms(2) show ?thesis by (auto simp: on_def join_pending_def)
qed

lemma join_pending_run:
  assumes "wellformed s" and "join_pending pid s" and "list_all quiet ins"
  shows "join_pending pid (run v e s ins)"
  using assms unfolding run_def
  by (induction ins arbitrary: s) (simp_all add: wellformed_step join_pending_step)

lemma join_pending_success:
  assumes "wellformed s" and "join_pending pid s"
  shows "promise_of pid (native_callback REC_EVENT_JOIN_CHANNEL a s) = Some (Fulfilled (VBool True))"
  using assms by (force simp: promise_of_native_callback join_pending_def)

lemma join_pending_error:
  assumes "wellformed s" and "join_pending pid s"
  shows "promise_of pid (native_callback REC_EVENT_ERROR a s) = Some (Rejected (arg 0 a))"
  using assms by (force simp: promise_of_native_callback join_pending_def)

lemma start_resume_join_pending:
  assumes "wellformed s" and "map_of (awaiting s) pid = Some cfgPath"
  shows "join_pending pid (start_resume v e pid None s)"
proof -
  from assms(2) have "(pid, cfgPath) \<in> set (awaiting s)" by (rule map_of_SomeD)
  with assms(1) have "pid < length (promises s)" "promises s ! pid = Pending"
    by (auto simp: wellformed_def)
  with assms(2) show ?thesis
    by (auto simp: join_pending_def start_resume_def Let_def once_def setTimeout_def promise_of_def
             split: prod.splits)
qed

lemma run_append: "run v e s (xs @ ys) = run v e (run v e s xs) ys"
  by (simp add: run_def)

lemma run_Cons: "run v e s (x # xs) = run v e (step v e s x) xs"
  by (simp add: run_def)

lemma first_completion_success:
  assumes "wellformed s" and "join_pending pid s" and "list_all quiet ins0"
  shows "promise_of pid (run v e s (ins0 @ NativeCallback REC_EVENT_JOIN_CHANNEL a # ins))
           = Some (Fulfilled (VBool True))"
proof -
  let ?s1 = "run v e s ins0"
  have wf: "wellformed ?s1" by (rule wellformed_run[OF assms(1)])
  have jp: "join_pending pid ?s1" by (rule join_pending_run[OF assms])
  have "promise_of pid (step v e ?s1 (NativeCallback REC_EVENT_JOIN_CHANNEL a))
          = Some (Fulfilled (VBool True))"
    using join_pending_success[OF wf jp] by simp
  from settled_run[OF wellformed_step[OF wf] this] show ?thesis
    by (simp add: run_append run_Cons)
qed

lemma first_completion_error:
  assumes "wellformed s" and "join_pending pid s" and "list_all quiet ins0"
  shows "promise_of pid (run v e s (ins0 @ NativeCallback REC_EVENT_ERROR a # ins))
           = Some (Rejected (arg 0 a))"
proof -
  let ?s1 = "run v e s ins0"
  have wf: "wellformed ?s1" by (rule wellformed_run[OF assms(1)])
  have jp: "join_pending pid ?s1" by (rule join_pending_run[OF assms])
  have "promise_of pid (step v e ?s1 (NativeCallback REC_EVENT_ERROR a))
          = Some (Rejected (arg 0 a))"
    using join_pending_error[OF wf jp] by simp
  from settled_run[OF wellformed_step[OF wf] this] show ?thesis
    by (simp add: run_append run_Cons)
qed

subsection \<open>The example recorder\<close>



lemma recordPath_room1:
  "path_resolve ''/srv/app'' ''output'' (defaultRecordDirTmpl ''room1'' date_2024)
     = ''/srv/app/output/2024-01-01/10:00:00 room1''"
  by (simp add: defaultRecordDirTmpl_def date_2024_def pad_def decimal.simps digit_def
                path_resolve_def isAbsolute_def normalizeString_def normalizeStep_def)

lemma constructor_room1:
  "constructor v env_2024 (\<lambda>_. cfg_room1) 0 = (new_room1 v, None)"
  by (simp add: new_room1_def constructor_def Let_def recordPath_def assignDefaults_def
                falsy_def cfg_room1_def env_2024_def recordPath_room1)

lemma reachable_new_room1: "reachable v env_2024 (new_room1 v)"
  using constructor_room1 by (rule reachable.constructed)

lemma reachable_started_room1: "reachable v env_2024 (started_room1 v)"
  unfolding started_room1_def using reachable_new_room1 by (rule reachable.stepped)

lemma new_room1_fields:
  "heap (new_room1 v) 0 = assignDefaults cfg_room1" "config (new_room1 v) = 0"
  "date (new_room1 v) = date_2024" "promises (new_room1 v) = []" "awaiting (new_room1 v) = []"
  "listeners (new_room1 v) = []" "timers (new_room1 v) = []"
  "sdk_handlers (new_room1 v) = relays"
  by (simp_all add: new_room1_def constructor_def Let_def recordPath_def assignDefaults_def
                falsy_def cfg_room1_def env_2024_def recordPath_room1 initEventHandler_eq)

lemma recordPath_new_room1:
  "recordPath env_2024 (new_room1 v) = Inr ''/srv/app/output/2024-01-01/10:00:00 room1''"
  using recordPath_room1
  by (simp add: recordPath_def new_room1_fields assignDefaults_def falsy_def cfg_room1_def env_2024_def)

lemma cfgPath_room1:
  "path_join ''/srv/app/output/2024-01-01/10:00:00 room1'' ''/cfg.json''
     = ''/srv/app/output/2024-01-01/10:00:00 room1/cfg.json''"
  by (simp add: path_join_def path_normalize_def isAbsolute_def normalizeString_def normalizeStep_def)

lemma recordPath_frame:
  assumes "heap s' = heap s" "config s' = config s" "date s' = date s"
  shows "recordPath e s' = recordPath e s"
  using assms by (simp add: recordPath_def cong: option.case_cong)

lemma started_room1_fields:
  "awaiting (started_room1 v) = [(0, ''/srv/app/output/2024-01-01/10:00:00 room1/cfg.json'')]"
  "promises (started_room1 v) = [Pending]" "listeners (started_room1 v) = []"
  "timers (started_room1 v) = []"
proof -
  have "recordPath env_2024 (new_room1 v\<lparr>promises := promises (new_room1 v) @ [Pending]\<rparr>)
          = Inr ''/srv/app/output/2024-01-01/10:00:00 room1''"
    by (simp add: recordPath_frame recordPath_new_room1)
  then show "awaiting (started_room1 v) = [(0, ''/srv/app/output/2024-01-01/10:00:00 room1/cfg.json'')]"
  "promises (started_room1 v) = [Pending]" "listeners (started_room1 v) = []"
  "timers (started_room1 v) = []"
    by (simp_all add: started_room1_def start_def Let_def new_room1_fields cfgPath_room1)
qed

section \<open>The claims\<close>

subsection \<open>C1: the join settles exactly once\<close>

text \<open>
  Claim C1. Let a \<^verbatim>\<open>start()\<close> call \<open>pid\<close> of a reachable state be waiting for its write, and
  let the write finish, so that the join request is submitted (\<open>start_resume\<close>). Whatever
  happens next that is not a completion callback (\<open>ins0\<close>), the promise stays pending. The
  first completion callback settles it: a join-success callback fulfils it with
  \<^verbatim>\<open>true\<close>, a join-error callback rejects it with the callback's first argument. The
  other callback arriving later, in either order and with any other inputs around it
  (\<open>ins1\<close>, \<open>ins2\<close>), leaves the promise in the terminal state the first one gave it. Both
  revisions.
\<close>

theorem join_settles_exactly_once:
  assumes "reachable v e s" and "map_of (awaiting s) pid = Some cfgPath" and "list_all quiet ins0"
  shows "promise_of pid (run v e (start_resume v e pid None s) ins0) = Some Pending
    \<and> promise_of pid (run v e (start_resume v e pid None s)
          (ins0 @ [NativeCallback REC_EVENT_JOIN_CHANNEL a])) = Some (Fulfilled (VBool True))
    \<and> promise_of pid (run v e (start_resume v e pid None s)
          (ins0 @ NativeCallback REC_EVENT_JOIN_CHANNEL a # ins1 @ NativeCallback REC_EVENT_ERROR b # ins2))
        = Some (Fulfilled (VBool True))
    \<and> promise_of pid (run v e (start_resume v e pid None s)
          (ins0 @ [NativeCallback REC_EVENT_ERROR b])) = Some (Rejected (arg 0 b))
    \<and> promise_of pid (run v e (start_resume v e pid None s)
          (ins0 @ NativeCallback REC_EVENT_ERROR b # ins1 @ NativeCallback REC_EVENT_JOIN_CHANNEL a # ins2))
        = Some (Rejected (arg 0 b))"
proof -
  let ?s1 = "start_resume v e pid None s"
  from assms(1) have "wellformed s" by (rule reachable_wellformed)
  then have wf: "wellformed ?s1" by (rule wellformed_start_resume)
  have jp: "join_pending pid ?s1"
    using \<open>wellformed s\<close> assms(2) by (rule start_resume_join_pending)
  have "join_pending pid (run v e ?s1 ins0)"
    using wf jp assms(3) by (rule join_pending_run)
  then have "promise_of pid (run v e ?s1 ins0) = Some Pending"
    by (simp add: join_pending_def)
  moreover note first_completion_success[OF wf jp assms(3), of v e a "[]"]
    first_completion_success[OF wf jp assms(3), of v e a "ins1 @ NativeCallback REC_EVENT_ERROR b # ins2"]
    first_completion_error[OF wf jp assms(3), of v e b "[]"]
    first_completion_error[OF wf jp assms(3), of v e b "ins1 @ NativeCallback REC_EVENT_JOIN_CHANNEL a # ins2"]
  ultimately show ?thesis by simp
qed

text \<open>
  The theorem at the recorder for channel \<^verbatim>\<open>room1\<close>, later revision: the timer expires, then
  both callbacks arrive, in each order.
\<close>

theorem join_settles_exactly_once_witness:
  "reachable part_000 env_2024 (started_room1 part_000)
   \<and> map_of (awaiting (started_room1 part_000)) 0
       = Some ''/srv/app/output/2024-01-01/10:00:00 room1/cfg.json''
   \<and> list_all quiet [TimerExpires 0]
   \<and> promise_of 0 (run part_000 env_2024 (start_resume part_000 env_2024 0 None (started_room1 part_000))
        [TimerExpires 0, NativeCallback REC_EVENT_JOIN_CHANNEL [VStr ''room1'', VStr ''uid42''],
         NativeCallback REC_EVENT_ERROR [VNum 5, VNum 101]])
       = Some (Fulfilled (VBool True))
   \<and> promise_of 0 (run part_000 env_2024 (start_resume part_000 env_2024 0 None (started_room1 part_000))
        [TimerExpires 0, NativeCallback REC_EVENT_ERROR [VNum 5, VNum 101],
         NativeCallback REC_EVENT_JOIN_CHANNEL [VStr ''room1'', VStr ''uid42'']])
       = Some (Rejected (VNum 5))"
proof -
  have r: "reachable part_000 env_2024 (started_room1 part_000)"
    by (rule reachable_started_room1)
  have a: "map_of (awaiting (started_room1 part_000)) 0
       = Some ''/srv/app/output/2024-01-01/10:00:00 room1/cfg.json''"
    by (simp add: started_room1_fields)
  have q: "list_all quiet [TimerExpires 0]" by simp
  from join_settles_exactly_once[OF r a q,
      of "[VStr ''room1'', VStr ''uid42'']" "[]" "[VNum 5, VNum 101]" "[]"] r a q
  show ?thesis by (simp add: arg_def)
qed

subsection \<open>C4: the join timeout is advisory\<close>

text \<open>What \<^verbatim>\<open>start()\<close> logs and registers when its write has finished.\<close>

lemma calls_invoke_all:
  "set (calls t) \<subseteq> set (calls (foldl (\<lambda>s (_, _, l). invoke k a l s) t ls))"
  for ls :: "(AgoraRecorderEvent \<times> bool \<times> listener) list"
proof (induction ls arbitrary: t)
  case Nil
  then show ?case by simp
next
  case (Cons x ls)
  obtain k' b l where x: "x = (k', b, l)" by (cases x)
  have "set (calls t) \<subseteq> set (calls (invoke k a l t))"
    by (induction k a l t rule: invoke.induct) (auto simp: resolve_def reject_def)
  with Cons.IH[of "invoke k a l t"] show ?case by (auto simp: x)
qed

lemma emit_logged: "This_emit k a \<in> set (calls (emit k a s))"
proof -
  let ?s1 = "logCall (This_emit k a)
               (s\<lparr>listeners := filter (\<lambda>(k', once, _). \<not> (k' = k \<and> once)) (listeners s)\<rparr>)"
  have "This_emit k a \<in> set (calls ?s1)" by simp
  with calls_invoke_all[of ?s1 k a "filter (\<lambda>(k', _, _). k' = k) (listeners s)"]
  show ?thesis unfolding emit_def Let_def by blast
qed

lemma start_resume_calls:
  assumes "map_of (awaiting s) pid = Some cfgPath"
  shows "calls (start_resume v e pid None s) =
     calls s
     @ [Sdk_joinChannel (appId (heap s (config s)))
          (BuildTokenWithAccount (appId (heap s (config s))) (certificate (heap s (config s)))
             (channel (heap s (config s))) (account (heap s (config s))) SUBSCRIBER 0)
          (channel (heap s (config s))) (account (heap s (config s)))
          (path_resolve (cwd e) ''node_modules'' ''.bin'') cfgPath]
     @ (if v = part_000 then [Timer_setTimeout (length (timers s)) 5000] else [])
     @ [This_once REC_EVENT_JOIN_CHANNEL, This_once REC_EVENT_ERROR]"
  using assms by (simp add: start_resume_def Let_def once_def setTimeout_def)

lemma start_resume_listeners:
  assumes "map_of (awaiting s) pid = Some cfgPath"
  shows "listeners (start_resume v e pid None s) =
     listeners s
     @ [(REC_EVENT_JOIN_CHANNEL, True,
           ResolveTrue pid (if v = part_000 then Some (length (timers s)) else None)),
        (REC_EVENT_ERROR, True,
           RejectErr pid (if v = part_000 then Some (length (timers s)) else None))]"
  using assms by (simp add: start_resume_def Let_def once_def setTimeout_def)

lemma start_resume_timers:
  assumes "map_of (awaiting s) pid = Some cfgPath"
  shows "timers (start_resume v e pid None s) =
     (if v = part_000 then timers s @ [Armed] else timers s)"
  using assms by (simp add: start_resume_def Let_def once_def setTimeout_def)

text \<open>
  Claim C4, for the revision that sets the timer. When the join is submitted the timer is
  armed. If it expires before either completion callback, it writes
  \<^verbatim>\<open>Joining channel timeout\<close> to the console and changes no promise and no listener: the
  promise of the call stays pending, also through any further inputs \<open>ins0\<close> that are not
  completion callbacks. A join-success callback arriving after that fulfils the promise
  with \<^verbatim>\<open>true\<close>; a join-error callback arriving after that rejects it with the callback's
  first argument.
\<close>

theorem join_timeout_is_advisory:
  assumes "reachable part_000 e s" and "map_of (awaiting s) pid = Some cfgPath"
    and "list_all quiet ins0"
  shows "timers (start_resume part_000 e pid None s) = timers s @ [Armed]
    \<and> calls (timer_expires (length (timers s)) (start_resume part_000 e pid None s))
        = calls (start_resume part_000 e pid None s) @ [Console_error ''Joining channel timeout'']
    \<and> promises (timer_expires (length (timers s)) (start_resume part_000 e pid None s))
        = promises (start_resume part_000 e pid None s)
    \<and> listeners (timer_expires (length (timers s)) (start_resume part_000 e pid None s))
        = listeners (start_resume part_000 e pid None s)
    \<and> promise_of pid (run part_000 e (start_resume part_000 e pid None s)
          (TimerExpires (length (timers s)) # ins0)) = Some Pending
    \<and> promise_of pid (run part_000 e (start_resume part_000 e pid None s)
          (TimerExpires (length (timers s)) # ins0 @ [NativeCallback REC_EVENT_JOIN_CHANNEL a]))
        = Some (Fulfilled (VBool True))
    \<and> promise_of pid (run part_000 e (start_resume part_000 e pid None s)
          (TimerExpires (length (timers s)) # ins0 @ [NativeCallback REC_EVENT_ERROR b]))
        = Some (Rejected (arg 0 b))"
proof -
  let ?s1 = "start_resume part_000 e pid None s"
  let ?tid = "length (timers s)"
  from assms(1) have "wellformed s" by (rule reachable_wellformed)
  then have wf: "wellformed ?s1" by (rule wellformed_start_resume)
  have jp: "join_pending pid ?s1"
    using \<open>wellformed s\<close> assms(2) by (rule start_resume_join_pending)
  have q: "list_all quiet (TimerExpires ?tid # ins0)" using assms(3) by simp
  have t: "timers ?s1 = timers s @ [Armed]"
    using start_resume_timers[OF assms(2), of part_000 e] by simp
  then have fires: "timer_expires ?tid ?s1 =
      logCall (Console_error ''Joining channel timeout'')
        (?s1\<lparr>timers := (timers ?s1)[?tid := Expired]\<rparr>)"
    by (simp add: timer_expires_def)
  have "join_pending pid (run part_000 e ?s1 (TimerExpires ?tid # ins0))"
    using wf jp q by (rule join_pending_run)
  then have p: "promise_of pid (run part_000 e ?s1 (TimerExpires ?tid # ins0)) = Some Pending"
    by (simp add: join_pending_def)
  from first_completion_success[OF wf jp q, of part_000 e a "[]"]
  have ok: "promise_of pid (run part_000 e ?s1
          (TimerExpires ?tid # ins0 @ [NativeCallback REC_EVENT_JOIN_CHANNEL a]))
        = Some (Fulfilled (VBool True))" by simp
  from first_completion_error[OF wf jp q, of part_000 e b "[]"]
  have err: "promise_of pid (run part_000 e ?s1
          (TimerExpires ?tid # ins0 @ [NativeCallback REC_EVENT_ERROR b]))
        = Some (Rejected (arg 0 b))" by simp
  show ?thesis
    unfolding fires using t p ok err by simp
qed

text \<open>
  The theorem at the recorder for \<^verbatim>\<open>room1\<close>: the timer expires, a participant joins, then
  the join succeeds.
\<close>

theorem join_timeout_is_advisory_witness:
  "reachable part_000 env_2024 (started_room1 part_000)
   \<and> map_of (awaiting (started_room1 part_000)) 0
       = Some ''/srv/app/output/2024-01-01/10:00:00 room1/cfg.json''
   \<and> list_all quiet [NativeCallback REC_EVENT_USER_JOIN [VNum 7]]
   \<and> promise_of 0 (run part_000 env_2024 (joining_room1 part_000)
        [TimerExpires 0, NativeCallback REC_EVENT_USER_JOIN [VNum 7]]) = Some Pending
   \<and> promise_of 0 (run part_000 env_2024 (joining_room1 part_000)
        [TimerExpires 0, NativeCallback REC_EVENT_USER_JOIN [VNum 7],
         NativeCallback REC_EVENT_JOIN_CHANNEL [VStr ''room1'', VStr ''uid42'']])
       = Some (Fulfilled (VBool True))
   \<and> calls (timer_expires 0 (joining_room1 part_000))
       = calls (joining_room1 part_000) @ [Console_error ''Joining channel timeout'']"
proof -
  have r: "reachable part_000 env_2024 (started_room1 part_000)"
    by (rule reachable_started_room1)
  have a: "map_of (awaiting (started_room1 part_000)) 0
       = Some ''/srv/app/output/2024-01-01/10:00:00 room1/cfg.json''"
    by (simp add: started_room1_fields)
  have q: "list_all quiet [NativeCallback REC_EVENT_USER_JOIN [VNum 7]]" by simp
  from join_timeout_is_advisory[OF r a q, of "[VStr ''room1'', VStr ''uid42'']" "[]"] r a q
  show ?thesis by (simp add: joining_room1_def started_room1_fields)
qed

subsection \<open>C3, C2, C6: the join error, the order of registration, the layout call\<close>

text \<open>The example recorder once its join is submitted.\<close>

lemma joining_room1_eq:
  "joining_room1 v = start_resume v env_2024 0 None (started_room1 v)"
  by (simp add: joining_room1_def)

lemma wellformed_joining_room1: "wellformed (joining_room1 v)"
  unfolding joining_room1_eq
  by (rule wellformed_start_resume[OF reachable_wellformed[OF reachable_started_room1]])

lemma join_pending_room1: "join_pending 0 (joining_room1 v)"
  unfolding joining_room1_eq
  by (rule start_resume_join_pending[OF reachable_wellformed[OF reachable_started_room1]])
     (simp add: started_room1_fields)

lemma native_error_emitted:
  assumes "wellformed s"
  shows "This_emit REC_EVENT_ERROR [err, statCode]
           \<in> set (calls (native_callback REC_EVENT_ERROR [err, statCode] s))"
proof -
  from assms have h: "sdk_handlers s = relays" by (simp add: wellformed_def)
  have "params 2 [err, statCode] = [err, statCode]"
    by (simp add: params_def arg_def numeral_2_eq_2 upt_rec)
  then show ?thesis
    unfolding native_callback_relays[OF h] by (simp add: relay_arity emit_logged)
qed

text \<open>
  Claim C3 fails as stated. The engine reports \<^verbatim>\<open>join-error(5, 101)\<close> to the example recorder
  before any success: the promise of \<^verbatim>\<open>start()\<close> is rejected with the number 5, which does
  not hold the status code 101.
\<close>

theorem join_error_drops_status_code:
  "promise_of 0 (run part_000 env_2024 (joining_room1 part_000)
       [NativeCallback REC_EVENT_ERROR [VNum 5, VNum 101]]) = Some (Rejected (VNum 5))
   \<and> 101 \<notin> set (codes (VNum 5))"
proof -
  have "list_all quiet []" by simp
  from first_completion_error[where v = part_000 and e = env_2024 and ins = "[]"
          and a = "[VNum 5, VNum 101]",
          OF wellformed_joining_room1[of part_000] join_pending_room1[of part_000] this]
  show ?thesis by (simp add: arg_def)
qed

text \<open>
  Claim C3, amended. When the engine reports a join failure \<open>(err, statCode)\<close> before any
  success, the promise of \<^verbatim>\<open>start()\<close> is rejected with \<open>err\<close> alone, the first argument of
  the callback (the listener is \<^verbatim>\<open>(err) => reject(err)\<close>); both codes travel only in the
  error event the recorder re-emits to its subscribers. Both revisions.
\<close>

theorem join_error_rejects_with_error_code:
  assumes "reachable v e s" and "map_of (awaiting s) pid = Some cfgPath"
    and "list_all quiet ins0"
  shows "promise_of pid (run v e (start_resume v e pid None s)
           (ins0 @ [NativeCallback REC_EVENT_ERROR [err, statCode]])) = Some (Rejected err)
    \<and> This_emit REC_EVENT_ERROR [err, statCode]
        \<in> set (calls (run v e (start_resume v e pid None s)
                  (ins0 @ [NativeCallback REC_EVENT_ERROR [err, statCode]])))"
proof -
  let ?s1 = "start_resume v e pid None s"
  from assms(1) have "wellformed s" by (rule reachable_wellformed)
  then have wf: "wellformed ?s1" by (rule wellformed_start_resume)
  have jp: "join_pending pid ?s1"
    using \<open>wellformed s\<close> assms(2) by (rule start_resume_join_pending)
  from first_completion_error[OF wf jp assms(3), of v e "[err, statCode]" "[]"]
  have "promise_of pid (run v e ?s1 (ins0 @ [NativeCallback REC_EVENT_ERROR [err, statCode]]))
          = Some (Rejected err)"
    by (simp add: arg_def)
  moreover have "wellformed (run v e ?s1 ins0)" using wf by (rule wellformed_run)
  then have "This_emit REC_EVENT_ERROR [err, statCode]
        \<in> set (calls (run v e ?s1 (ins0 @ [NativeCallback REC_EVENT_ERROR [err, statCode]])))"
    by (simp add: run_append run_Cons run_def native_error_emitted)
  ultimately show ?thesis by simp
qed

text \<open>The amended claim at \<^verbatim>\<open>join-error(5, 101)\<close> on the example recorder.\<close>

theorem join_error_rejects_with_error_code_witness:
  "reachable part_000 env_2024 (started_room1 part_000)
   \<and> map_of (awaiting (started_room1 part_000)) 0
       = Some ''/srv/app/output/2024-01-01/10:00:00 room1/cfg.json''
   \<and> list_all quiet []
   \<and> promise_of 0 (run part_000 env_2024 (joining_room1 part_000)
        [NativeCallback REC_EVENT_ERROR [VNum 5, VNum 101]]) = Some (Rejected (VNum 5))
   \<and> This_emit REC_EVENT_ERROR [VNum 5, VNum 101]
        \<in> set (calls (run part_000 env_2024 (joining_room1 part_000)
                  [NativeCallback REC_EVENT_ERROR [VNum 5, VNum 101]]))"
proof -
  have r: "reachable part_000 env_2024 (started_room1 part_000)"
    by (rule reachable_started_room1)
  have a: "map_of (awaiting (started_room1 part_000)) 0
       = Some ''/srv/app/output/2024-01-01/10:00:00 room1/cfg.json''"
    by (simp add: started_room1_fields)
  have q: "list_all quiet []" by simp
  from join_error_rejects_with_error_code[OF r a q, of "VNum 5" "VNum 101"] r a
  show ?thesis by (simp add: joining_room1_eq)
qed

lemma started_room1_config:
  "heap (started_room1 v) (config (started_room1 v)) = assignDefaults cfg_room1"
  by (auto simp: started_room1_def start_def Let_def reject_def new_room1_fields split: sum.splits)

lemma node_modules_bin:
  "path_resolve ''/srv/app'' ''node_modules'' ''.bin'' = ''/srv/app/node_modules/.bin''"
  by (simp add: path_resolve_def isAbsolute_def normalizeString_def normalizeStep_def)

text \<open>
  Claim C2 fails as stated. On the example recorder no listener is registered while
  \<^verbatim>\<open>start()\<close> waits for its write, and the continuation logs \<^verbatim>\<open>sdk.joinChannel\<close> first and
  the two \<^verbatim>\<open>once\<close> registrations after it.
\<close>

theorem join_submitted_before_listeners_registered:
  "listeners (started_room1 AgoraRecorder_ts) = []
   \<and> calls (joining_room1 AgoraRecorder_ts) =
       calls (started_room1 AgoraRecorder_ts)
       @ [Sdk_joinChannel ''A''
            (BuildTokenWithAccount ''A'' ''C'' ''room1'' (Some ''agora-recorder'') SUBSCRIBER 0)
            ''room1'' (Some ''agora-recorder'') ''/srv/app/node_modules/.bin''
            ''/srv/app/output/2024-01-01/10:00:00 room1/cfg.json'',
          This_once REC_EVENT_JOIN_CHANNEL, This_once REC_EVENT_ERROR]"
proof -
  have a: "map_of (awaiting (started_room1 AgoraRecorder_ts)) 0
       = Some ''/srv/app/output/2024-01-01/10:00:00 room1/cfg.json''"
    by (simp add: started_room1_fields)
  show ?thesis
    unfolding joining_room1_eq start_resume_calls[OF a]
    by (simp add: started_room1_fields started_room1_config assignDefaults_def falsy_def
                  cfg_room1_def env_2024_def node_modules_bin)
qed

text \<open>
  Claim C2, amended. In every \<^verbatim>\<open>start()\<close> call whose write has finished, the join request
  is submitted first and the two completion listeners (join-success, then join-error) are
  registered after it, in the same synchronous continuation (with the timer set between them
  in the later revision): when that continuation ends both listeners are in the table, so a
  callback delivered in any later turn of the event loop finds them.
\<close>

theorem listeners_registered_when_join_submitted:
  assumes "map_of (awaiting s) pid = Some cfgPath"
  shows "calls (start_resume v e pid None s) =
       calls s
       @ [Sdk_joinChannel (appId (heap s (config s)))
            (BuildTokenWithAccount (appId (heap s (config s))) (certificate (heap s (config s)))
               (channel (heap s (config s))) (account (heap s (config s))) SUBSCRIBER 0)
            (channel (heap s (config s))) (account (heap s (config s)))
            (path_resolve (cwd e) ''node_modules'' ''.bin'') cfgPath]
       @ (if v = part_000 then [Timer_setTimeout (length (timers s)) 5000] else [])
       @ [This_once REC_EVENT_JOIN_CHANNEL, This_once REC_EVENT_ERROR]
    \<and> listeners (start_resume v e pid None s) =
       listeners s
       @ [(REC_EVENT_JOIN_CHANNEL, True,
             ResolveTrue pid (if v = part_000 then Some (length (timers s)) else None)),
          (REC_EVENT_ERROR, True,
             RejectErr pid (if v = part_000 then Some (length (timers s)) else None))]"
  using start_resume_calls[OF assms] start_resume_listeners[OF assms] by simp

text \<open>The amended claim on the example recorder, later revision.\<close>

theorem listeners_registered_when_join_submitted_witness:
  "map_of (awaiting (started_room1 part_000)) 0
       = Some ''/srv/app/output/2024-01-01/10:00:00 room1/cfg.json''
   \<and> listeners (joining_room1 part_000) =
       [(REC_EVENT_JOIN_CHANNEL, True, ResolveTrue 0 (Some 0)),
        (REC_EVENT_ERROR, True, RejectErr 0 (Some 0))]
   \<and> calls (joining_room1 part_000) =
       calls (started_room1 part_000)
       @ [Sdk_joinChannel ''A''
            (BuildTokenWithAccount ''A'' ''C'' ''room1'' (Some ''agora-recorder'') SUBSCRIBER 0)
            ''room1'' (Some ''agora-recorder'') ''/srv/app/node_modules/.bin''
            ''/srv/app/output/2024-01-01/10:00:00 room1/cfg.json'',
          Timer_setTimeout 0 5000,
          This_once REC_EVENT_JOIN_CHANNEL, This_once REC_EVENT_ERROR]"
proof -
  have a: "map_of (awaiting (started_room1 part_000)) 0
       = Some ''/srv/app/output/2024-01-01/10:00:00 room1/cfg.json''"
    by (simp add: started_room1_fields)
  from listeners_registered_when_join_submitted[OF a, of part_000 env_2024] a
  show ?thesis
    by (simp add: joining_room1_eq started_room1_fields started_room1_config assignDefaults_def
                  falsy_def cfg_room1_def env_2024_def node_modules_bin)
qed

text \<open>
  Claim C6 fails as stated. On the example recorder, freshly constructed and with no
  \<^verbatim>\<open>start()\<close> call at all, \<^verbatim>\<open>setMixLayout\<close> calls the native engine.
\<close>

theorem setMixLayout_forwarded_before_join:
  "promises (new_room1 AgoraRecorder_ts) = []
   \<and> calls (step AgoraRecorder_ts env_2024 (new_room1 AgoraRecorder_ts) (CallSetMixLayout (Layout 1)))
       = calls (new_room1 AgoraRecorder_ts) @ [Sdk_setMixLayout (Layout 1)]"
  by (simp add: new_room1_fields setMixLayout_def)

text \<open>
  Claim C6, amended. In every state, joined or not, \<^verbatim>\<open>setMixLayout(layout)\<close> forwards the
  layout to the native engine with one call of \<^verbatim>\<open>sdk.setMixLayout\<close>, raises no error of its
  own and changes nothing else: the recorder keeps no join state to check.
\<close>

theorem setMixLayout_forwards_in_every_state:
  "calls (step v e s (CallSetMixLayout layout)) = calls s @ [Sdk_setMixLayout layout]
   \<and> promises (step v e s (CallSetMixLayout layout)) = promises s
   \<and> listeners (step v e s (CallSetMixLayout layout)) = listeners s
   \<and> timers (step v e s (CallSetMixLayout layout)) = timers s
   \<and> awaiting (step v e s (CallSetMixLayout layout)) = awaiting s"
  by (simp add: setMixLayout_def)

subsection \<open>C5, C10: what the constructor checks and what it changes\<close>

lemma assignDefaults_fields:
  "appId (assignDefaults c) = appId c" "certificate (assignDefaults c) = certificate c"
  "channel (assignDefaults c) = channel c" "logLevel (assignDefaults c) = logLevel c"
  "account (assignDefaults c) = (if falsy (account c) then Some ''agora-recorder'' else account c)"
  "outputDir (assignDefaults c) = (if falsy (outputDir c) then Some ''output'' else outputDir c)"
  "recordDirTmpl (assignDefaults c) =
     (case recordDirTmpl c of None \<Rightarrow> Some defaultRecordDirTmpl | Some tmpl \<Rightarrow> Some tmpl)"
  by (auto simp: assignDefaults_def Let_def split: option.splits)

lemma assignDefaults_effective:
  "outputDir (assignDefaults c) = Some (effective_outputDir c)"
  "recordDirTmpl (assignDefaults c) = Some (effective_recordDirTmpl c)"
  by (auto simp: assignDefaults_fields effective_outputDir_def effective_recordDirTmpl_def
                 falsy_def split: option.splits)

lemma constructor_fields:
  "heap (fst (constructor v e h r)) = h(r := assignDefaults (h r))"
  "config (fst (constructor v e h r)) = r"
  "date (fst (constructor v e h r)) = now e"
  by (auto simp: constructor_def Let_def initEventHandler_eq split: sum.splits option.splits)

lemma recordPath_constructor:
  "recordPath e (fst (constructor v e h r)) =
     Inr (path_resolve (cwd e) (effective_outputDir (h r))
            (effective_recordDirTmpl (h r) (channel (h r)) (now e)))"
  by (simp add: recordPath_def constructor_fields assignDefaults_effective assignDefaults_fields)

lemma constructor_outcome:
  "recordPath e (fst (constructor v e h r)) = Inr p \<Longrightarrow>
     take 1 (calls (fst (constructor v e h r))) = [Fs_mkdirSync p]
     \<and> snd (constructor v e h r) = mkdirSync_throws e p
     \<and> (Sdk_new \<in> set (calls (fst (constructor v e h r)))) = (mkdirSync_throws e p = None)"
proof -
  let ?s0 = "\<lparr>heap = h(r := assignDefaults (h r)), config = r, date = now e,
                sdk_handlers = [], listeners = [], promises = [], timers = [],
                awaiting = [], calls = []\<rparr>"
  assume "recordPath e (fst (constructor v e h r)) = Inr p"
  moreover have "recordPath e (fst (constructor v e h r)) = recordPath e ?s0"
    by (rule recordPath_frame) (simp_all add: constructor_fields)
  ultimately have p: "recordPath e ?s0 = Inr p" by simp
  show ?thesis
    by (cases "mkdirSync_throws e p")
       (auto simp: constructor_def Let_def p initEventHandler_eq logCall_def
             split: option.splits)
qed

text \<open>
  Claim C5 fails as stated. With an empty channel, an empty application id and an empty
  certificate the constructor throws nothing, and it has called \<^verbatim>\<open>fs.mkdirSync\<close> and
  created the engine.
\<close>

theorem constructor_accepts_empty_fields:
  "snd (constructor AgoraRecorder_ts env_2024 (\<lambda>_. cfg_empty) 0) = None
   \<and> take 2 (calls (fst (constructor AgoraRecorder_ts env_2024 (\<lambda>_. cfg_empty) 0)))
       = [Fs_mkdirSync ''/srv/app/output/2024-01-01/10:00:00 '', Sdk_new]"
proof -
  have "path_resolve ''/srv/app'' ''output'' (defaultRecordDirTmpl [] date_2024)
     = ''/srv/app/output/2024-01-01/10:00:00 ''"
    by (simp add: defaultRecordDirTmpl_def date_2024_def pad_def decimal.simps digit_def
                  path_resolve_def isAbsolute_def normalizeString_def normalizeStep_def)
  then show ?thesis
    by (simp add: constructor_def Let_def recordPath_def assignDefaults_def falsy_def
                  cfg_empty_def env_2024_def initEventHandler_eq logCall_def)
qed

text \<open>
  Claim C5, amended. The constructor checks none of its configuration fields. For every
  configuration its first call is \<^verbatim>\<open>fs.mkdirSync\<close> on the record path; it throws exactly
  when that call throws, and then that error; and it creates the engine exactly when the
  directory was created. Both revisions.
\<close>

theorem constructor_performs_no_validation:
  "\<exists>p. recordPath e (fst (constructor v e h r)) = Inr p
     \<and> take 1 (calls (fst (constructor v e h r))) = [Fs_mkdirSync p]
     \<and> snd (constructor v e h r) = mkdirSync_throws e p
     \<and> (Sdk_new \<in> set (calls (fst (constructor v e h r)))) = (mkdirSync_throws e p = None)"
  using constructor_outcome[OF recordPath_constructor] recordPath_constructor by blast

text \<open>
  Claim C10 fails as stated. The caller passes an object without \<^verbatim>\<open>account\<close> and
  \<^verbatim>\<open>outputDir\<close>; after construction that same object holds the two defaults.
\<close>

theorem constructor_mutates_caller_config:
  "account cfg_room1 = None \<and> outputDir cfg_room1 = None
   \<and> account (heap (fst (constructor AgoraRecorder_ts env_2024 (\<lambda>_. cfg_room1) 0)) 0)
       = Some ''agora-recorder''
   \<and> outputDir (heap (fst (constructor AgoraRecorder_ts env_2024 (\<lambda>_. cfg_room1) 0)) 0)
       = Some ''output''"
  by (simp add: constructor_fields assignDefaults_fields falsy_def cfg_room1_def)

text \<open>
  Claim C10, amended. The constructor keeps a reference to the caller's object and assigns
  the defaults into it: after construction the object at the caller's reference is the
  caller's configuration with \<^verbatim>\<open>account\<close>, \<^verbatim>\<open>outputDir\<close> and \<^verbatim>\<open>recordDirTmpl\<close> replaced by
  their defaults where they were missing (or empty), every other object of the store is
  untouched, and \<^verbatim>\<open>appId\<close>, \<^verbatim>\<open>certificate\<close>, \<^verbatim>\<open>channel\<close>, \<^verbatim>\<open>logLevel\<close> and every supplied
  non-empty option are as the caller gave them. No separate effective configuration exists.
\<close>

theorem constructor_assigns_defaults_in_place:
  "heap (fst (constructor v e h r)) = h(r := assignDefaults (h r))
   \<and> config (fst (constructor v e h r)) = r
   \<and> appId (assignDefaults c) = appId c
   \<and> certificate (assignDefaults c) = certificate c
   \<and> channel (assignDefaults c) = channel c
   \<and> logLevel (assignDefaults c) = logLevel c
   \<and> account (assignDefaults c) = (if falsy (account c) then Some ''agora-recorder'' else account c)
   \<and> outputDir (assignDefaults c) = (if falsy (outputDir c) then Some ''output'' else outputDir c)
   \<and> recordDirTmpl (assignDefaults c) =
       (case recordDirTmpl c of None \<Rightarrow> Some defaultRecordDirTmpl | Some tmpl \<Rightarrow> Some tmpl)"
  by (simp add: constructor_fields assignDefaults_fields)

subsection \<open>C8, C9: the record path\<close>

text \<open>No operation changes the store, \<^verbatim>\<open>this.config\<close> or \<^verbatim>\<open>this.date\<close>.\<close>

lemma native_callback_fields [simp]:
  "heap (native_callback k a s) = heap s" "config (native_callback k a s) = config s"
  "date (native_callback k a s) = date s"
proof -
  have "heap (foldl (\<lambda>s (k', n). if k' = k then emit k (params n a) s else s) t hs) = heap t
      \<and> config (foldl (\<lambda>s (k', n). if k' = k then emit k (params n a) s else s) t hs) = config t
      \<and> date (foldl (\<lambda>s (k', n). if k' = k then emit k (params n a) s else s) t hs) = date t"
    for t and hs :: "(AgoraRecorderEvent \<times> nat) list"
    by (induction hs arbitrary: t) (auto split: prod.splits)
  then show "heap (native_callback k a s) = heap s" "config (native_callback k a s) = config s"
    "date (native_callback k a s) = date s"
    by (simp_all add: native_callback_def)
qed

lemma start_fields [simp]:
  "heap (fst (start e s)) = heap s" "config (fst (start e s)) = config s"
  "date (fst (start e s)) = date s"
  by (auto simp: start_def Let_def reject_def split: sum.splits)

lemma start_resume_fields [simp]:
  "heap (start_resume v e pid w s) = heap s" "config (start_resume v e pid w s) = config s"
  "date (start_resume v e pid w s) = date s"
  by (auto simp: start_resume_def Let_def reject_def once_def setTimeout_def
           split: option.splits prod.splits)

lemma step_fields [simp]:
  "heap (step v e s i) = heap s" "config (step v e s i) = config s" "date (step v e s i) = date s"
  by (cases i; simp add: timer_expires_def stop_def setMixLayout_def on_def)+

lemma run_fields [simp]:
  "heap (run v e s ins) = heap s" "config (run v e s ins) = config s" "date (run v e s ins) = date s"
  unfolding run_def by (induction ins arbitrary: s; simp)+

text \<open>The same for executions whose environment changes from turn to turn.\<close>

lemma run_in_fields [simp]:
  "heap (run_in v s eins) = heap s" "config (run_in v s eins) = config s"
  "date (run_in v s eins) = date s"
  unfolding run_in_def by (induction eins arbitrary: s; simp split: prod.splits)+





lemma defaultRecordDirTmpl_format:
  "defaultRecordDirTmpl ch d =
     pad (getFullYear d) 4 @ ''-'' @ pad (getMonth d + 1) 2 @ ''-'' @ pad (getDate d) 2 @ ''/''
     @ pad (getHours d) 2 @ '':'' @ pad (getMinutes d) 2 @ '':'' @ pad (getSeconds d) 2
     @ '' '' @ ch"
  by (simp add: defaultRecordDirTmpl_def)

text \<open>
  Claim C9. With no template and no output directory in the configuration
  \<^verbatim>\<open>{appId: "A", certificate: "C", channel: "room1"}\<close> and the clock at 2024-01-01 10:00:00,
  the record path is \<^verbatim>\<open>path.resolve("output", "2024-01-01/10:00:00 room1")\<close>, which ends with
  \<^verbatim>\<open>2024-01-01/10:00:00 room1\<close> and indeed with \<^verbatim>\<open>output/2024-01-01/10:00:00 room1\<close>, whatever
  the working directory, the revision and the rest of the store. In general the default
  template is the zero-padded date \<^verbatim>\<open>YYYY-MM-DD\<close>, a separator, the zero-padded time
  \<^verbatim>\<open>HH:mm:ss\<close>, a space and the channel name as given.
\<close>

theorem default_recordPath_of_room1:
  "recordPath \<lparr>cwd = wd, now = date_2024, mkdirSync_throws = mk\<rparr>
     (fst (constructor v \<lparr>cwd = wd, now = date_2024, mkdirSync_throws = mk\<rparr> (h(r := cfg_room1)) r))
     = Inr (path_resolve wd ''output'' ''2024-01-01/10:00:00 room1'')
   \<and> suffix ''2024-01-01/10:00:00 room1'' (path_resolve wd ''output'' ''2024-01-01/10:00:00 room1'')
   \<and> suffix ''output/2024-01-01/10:00:00 room1''
        (path_resolve wd ''output'' ''2024-01-01/10:00:00 room1'')
   \<and> defaultRecordDirTmpl ch d =
       pad (getFullYear d) 4 @ ''-'' @ pad (getMonth d + 1) 2 @ ''-'' @ pad (getDate d) 2 @ ''/''
       @ pad (getHours d) 2 @ '':'' @ pad (getMinutes d) 2 @ '':'' @ pad (getSeconds d) 2
       @ '' '' @ ch"
proof -
  have t: "defaultRecordDirTmpl ''room1'' date_2024 = ''2024-01-01/10:00:00 room1''"
    by (simp add: defaultRecordDirTmpl_format date_2024_def pad_def decimal.simps digit_def)
  have rp: "recordPath \<lparr>cwd = wd, now = date_2024, mkdirSync_throws = mk\<rparr>
     (fst (constructor v \<lparr>cwd = wd, now = date_2024, mkdirSync_throws = mk\<rparr> (h(r := cfg_room1)) r))
     = Inr (path_resolve wd ''output'' ''2024-01-01/10:00:00 room1'')"
    by (simp add: recordPath_constructor effective_outputDir_def effective_recordDirTmpl_def
                  cfg_room1_def t[unfolded cfg_room1_def])
  from path_resolve_default_room1[of wd] obtain pre
    where pre: "path_resolve wd ''output'' ''2024-01-01/10:00:00 room1''
                  = pre @ ''output/2024-01-01/10:00:00 room1''" by blast
  have s1: "suffix ''output/2024-01-01/10:00:00 room1''
              (path_resolve wd ''output'' ''2024-01-01/10:00:00 room1'')"
    unfolding pre by (rule suffixI) simp
  have "suffix ''2024-01-01/10:00:00 room1'' ''output/2024-01-01/10:00:00 room1''"
    by (rule suffixI[of _ "''output/''"]) simp
  then have s2: "suffix ''2024-01-01/10:00:00 room1''
              (path_resolve wd ''output'' ''2024-01-01/10:00:00 room1'')"
    using s1 by (rule suffix_order.trans)
  show ?thesis using rp s1 s2 defaultRecordDirTmpl_format by simp
qed

subsection \<open>C7: the session configuration file\<close>

text \<open>What \<^verbatim>\<open>start()\<close> does before it waits, and the text it writes.\<close>

lemma start_written:
  assumes "recordPath e s = Inr p"
  shows "start e s =
     ((logCall (Fs_writeFile (path_join p ''/cfg.json'')
                  (JSON_stringify (JObject [(''Recording_Dir'', JString p)])))
         (s\<lparr>promises := promises s @ [Pending]\<rparr>))
        \<lparr>awaiting := awaiting s @ [(length (promises s), path_join p ''/cfg.json'')]\<rparr>,
      length (promises s))"
proof -
  have "recordPath e (s\<lparr>promises := promises s @ [Pending]\<rparr>) = recordPath e s"
    by (rule recordPath_frame) simp_all
  with assms show ?thesis by (simp add: start_def Let_def)
qed

lemma recording_dir_json:
  "JSON_stringify (JObject [(''Recording_Dir'', JString p)]) =
     CHR ''{'' # CHR 0x22 # ''Recording_Dir'' @ [CHR 0x22, CHR '':''] @ quoteJSONString p @ ''}''"
  by (simp add: quoteJSONString_def quoteChar_def)

lemma wellformed_awaiting_fresh:
  assumes "wellformed s"
  shows "map_of (awaiting s) (length (promises s)) = None"
proof -
  from assms have "length (promises s) \<notin> fst ` set (awaiting s)"
    by (fastforce simp: wellformed_def)
  then show ?thesis by (simp add: map_of_eq_None_iff)
qed

lemma wellformed_recordPath_resolved:
  assumes "wellformed s"
  shows "\<exists>dir sub. recordPath e s = Inr (path_resolve (cwd e) dir sub)"
proof -
  from assms obtain tmpl dir
    where "recordDirTmpl (heap s (config s)) = Some tmpl" "outputDir (heap s (config s)) = Some dir"
    by (auto simp: wellformed_def)
  then have "recordPath e s =
      Inr (path_resolve (cwd e) dir (tmpl (channel (heap s (config s))) (date s)))"
    by (simp add: recordPath_def)
  then show ?thesis by blast
qed

text \<open>
  Claim C7. In every reachable state of a process with an absolute working directory, the
  record path \<open>p\<close> is absolute and \<^verbatim>\<open>start()\<close>, before it waits, makes one call: it writes to
  \<^verbatim>\<open>cfg.json\<close> directly inside \<open>p\<close> the text of \<^verbatim>\<open>JSON.stringify({Recording_Dir: p})\<close>, an
  object with the single key \<^verbatim>\<open>Recording_Dir\<close> whose value is the JSON string for \<open>p\<close>
  (\<^verbatim>\<open>JSON.stringify\<close> puts no space after the colon). Its promise is then pending and
  nothing has been submitted. The join request, naming that file, is submitted only in the
  continuation that runs when the write has succeeded; when the write fails with \<open>err\<close> the
  continuation calls nothing and the promise is rejected with \<open>err\<close>.
\<close>

theorem start_writes_cfg_json_before_join:
  assumes "reachable v e s" and "isAbsolute (cwd e)"
  shows "\<exists>p cfgPath.
       recordPath e s = Inr p \<and> isAbsolute p
     \<and> cfgPath = (if p = ''/'' then ''/cfg.json'' else p @ ''/cfg.json'')
     \<and> calls (fst (start e s)) =
         calls s @ [Fs_writeFile cfgPath
                      (CHR ''{'' # CHR 0x22 # ''Recording_Dir'' @ [CHR 0x22, CHR '':'']
                       @ quoteJSONString p @ ''}'')]
     \<and> JSON_stringify (JObject [(''Recording_Dir'', JString p)]) =
         CHR ''{'' # CHR 0x22 # ''Recording_Dir'' @ [CHR 0x22, CHR '':''] @ quoteJSONString p @ ''}''
     \<and> promise_of (snd (start e s)) (fst (start e s)) = Some Pending
     \<and> calls (start_resume v e (snd (start e s)) None (fst (start e s))) =
         calls (fst (start e s))
         @ [Sdk_joinChannel (appId (heap s (config s)))
              (BuildTokenWithAccount (appId (heap s (config s))) (certificate (heap s (config s)))
                 (channel (heap s (config s))) (account (heap s (config s))) SUBSCRIBER 0)
              (channel (heap s (config s))) (account (heap s (config s)))
              (path_resolve (cwd e) ''node_modules'' ''.bin'') cfgPath]
         @ (if v = part_000 then [Timer_setTimeout (length (timers s)) 5000] else [])
         @ [This_once REC_EVENT_JOIN_CHANNEL, This_once REC_EVENT_ERROR]
     \<and> calls (start_resume v e (snd (start e s)) (Some err) (fst (start e s))) =
         calls (fst (start e s))
     \<and> promise_of (snd (start e s)) (start_resume v e (snd (start e s)) (Some err) (fst (start e s)))
         = Some (Rejected (VError err))"
proof -
  from assms(1) have wf: "wellformed s" by (rule reachable_wellformed)
  from wellformed_recordPath_resolved[OF wf] obtain dir sub
    where p: "recordPath e s = Inr (path_resolve (cwd e) dir sub)" by blast
  let ?p = "path_resolve (cwd e) dir sub"
  let ?cfgPath = "if ?p = ''/'' then ''/cfg.json'' else ?p @ ''/cfg.json''"
  let ?s1 = "fst (start e s)"
  let ?pid = "snd (start e s)"
  from path_join_resolved[OF assms(2), of dir sub]
  have abs: "isAbsolute ?p" and j: "path_join ?p ''/cfg.json'' = ?cfgPath" by simp_all
  note st = start_written[OF p, unfolded j recording_dir_json]
  have pid: "?pid = length (promises s)" by (simp add: st)
  have c1: "calls ?s1 =
         calls s @ [Fs_writeFile ?cfgPath
                      (CHR ''{'' # CHR 0x22 # ''Recording_Dir'' @ [CHR 0x22, CHR '':'']
                       @ quoteJSONString ?p @ ''}'')]"
    by (simp add: st)
  have pend: "promise_of ?pid ?s1 = Some Pending"
    by (simp add: st promise_of_def)
  have aw: "map_of (awaiting ?s1) ?pid = Some ?cfgPath"
    using wellformed_awaiting_fresh[OF wf] by (simp add: st map_add_def)
  have same: "heap ?s1 = heap s" "config ?s1 = config s" "timers ?s1 = timers s"
    by (simp_all add: st)
  have c2: "calls (start_resume v e ?pid None ?s1) =
         calls ?s1
         @ [Sdk_joinChannel (appId (heap s (config s)))
              (BuildTokenWithAccount (appId (heap s (config s))) (certificate (heap s (config s)))
                 (channel (heap s (config s))) (account (heap s (config s))) SUBSCRIBER 0)
              (channel (heap s (config s))) (account (heap s (config s)))
              (path_resolve (cwd e) ''node_modules'' ''.bin'') ?cfgPath]
         @ (if v = part_000 then [Timer_setTimeout (length (timers s)) 5000] else [])
         @ [This_once REC_EVENT_JOIN_CHANNEL, This_once REC_EVENT_ERROR]"
    unfolding start_resume_calls[OF aw] same ..
  have c3: "calls (start_resume v e ?pid (Some err) ?s1) = calls ?s1"
    using aw by (simp add: start_resume_def reject_def)
  have c4: "promise_of ?pid (start_resume v e ?pid (Some err) ?s1) = Some (Rejected (VError err))"
    using aw pend by (simp add: promise_of_start_resume)
  from p abs c1 recording_dir_json[of ?p] pend c2 c3 c4 show ?thesis by blast
qed

text \<open>
  The theorem on the example recorder: the file, its text, and a write that fails for lack
  of space.
\<close>

theorem start_writes_cfg_json_before_join_witness:
  "reachable part_000 env_2024 (new_room1 part_000) \<and> isAbsolute (cwd env_2024)
   \<and> recordPath env_2024 (new_room1 part_000) = Inr ''/srv/app/output/2024-01-01/10:00:00 room1''
   \<and> calls (started_room1 part_000) =
       calls (new_room1 part_000)
       @ [Fs_writeFile ''/srv/app/output/2024-01-01/10:00:00 room1/cfg.json''
            (CHR ''{'' # CHR 0x22 # ''Recording_Dir'' @ [CHR 0x22, CHR '':'', CHR 0x22]
             @ ''/srv/app/output/2024-01-01/10:00:00 room1'' @ [CHR 0x22, CHR ''}''])]
   \<and> calls (start_resume part_000 env_2024 0 (Some (FsError ''ENOSPC'')) (started_room1 part_000))
       = calls (started_room1 part_000)"
proof -
  have r: "reachable part_000 env_2024 (new_room1 part_000)" by (rule reachable_new_room1)
  have a: "isAbsolute (cwd env_2024)" by (simp add: isAbsolute_def env_2024_def)
  have pid: "snd (start env_2024 (new_room1 part_000)) = 0"
    by (simp add: start_written[OF recordPath_new_room1] new_room1_fields)
  have q: "quoteJSONString ''/srv/app/output/2024-01-01/10:00:00 room1''
      = CHR 0x22 # ''/srv/app/output/2024-01-01/10:00:00 room1'' @ [CHR 0x22]"
    by (simp add: quoteJSONString_def quoteChar_def)
  from start_writes_cfg_json_before_join[OF r a, of "FsError ''ENOSPC''"] r a
  show ?thesis
    by (simp add: recordPath_new_room1 started_room1_def[symmetric, unfolded step.simps] pid q)
qed

end
